theory Spec2Isabelle
  imports Complex_Main
begin

section \<open>The smartcab learning agent (projects/smartcab/smartcab/agent.py)\<close>

text \<open>
  The module is Python 2 (\<^verbatim>\<open>run\<close> calls \<^verbatim>\<open>raw_input\<close>, and there is no
  \<^verbatim>\<open>from __future__ import division\<close>), so \<^verbatim>\<open>/\<close> on two ints is floor division.
  The methods are modelled over exact reals; \<open>learn_rounded\<close> is the update of line 139 on
  IEEE doubles, for the property that rounding decides. The trial counter \<^verbatim>\<open>self.t\<close>, which
  starts at 0 and is only ever incremented, is a natural number.
\<close>

subsection \<open>Data model\<close>

text \<open>The values a sensor field or a waypoint can carry: \<^verbatim>\<open>None\<close> or a string.\<close>

datatype pyval = PNone | PStr string

text \<open>\<^verbatim>\<open>state = (inputs['light'], waypoint, inputs['oncoming'], inputs['left'])\<close>\<close>

type_synonym state = "pyval \<times> pyval \<times> pyval \<times> pyval"

text \<open>The keys of a row of the Q-table: \<^verbatim>\<open>None\<close>, \<^verbatim>\<open>'left'\<close>, \<^verbatim>\<open>'right'\<close>, \<^verbatim>\<open>'forward'\<close>.\<close>

datatype action = ANone | ALeft | ARight | AForward

type_synonym row = "action \<rightharpoonup> real"

type_synonym qtable = "state \<rightharpoonup> row"

text \<open>
  Python's \<^verbatim>\<open>KeyError\<close> carries the key that was missing: a state of the Q-table, an action
  of a row, or a field of the sensor dictionary.
\<close>

datatype key = StateKey state | ActionKey action | InputKey string

datatype error = KeyError key | ValueError | IndexError

text \<open>
  The attributes of \<^verbatim>\<open>LearningAgent\<close>. \<^verbatim>\<open>self.state\<close> and \<^verbatim>\<open>self.next_waypoint\<close> are
  \<^verbatim>\<open>None\<close> until \<^verbatim>\<open>choose_action\<close> sets them.
\<close>

record agent =
  learning :: bool
  Q :: qtable
  epsilon :: real
  alpha :: real
  t :: nat
  decay_fun :: int
  decay :: real
  state :: "state option"
  next_waypoint :: "pyval option"

text \<open>
  Modelled from the spec: \<^verbatim>\<open>self.env.valid_actions\<close> is declared in environment.py, which is
  not part of the sources; the spec fixes the action set as {none, forward, left, right}.
\<close>

definition valid_actions :: "action list" where
  "valid_actions = [ANone, AForward, ALeft, ARight]"





subsection \<open>Library functions the agent calls\<close>

text \<open>
  \<^verbatim>\<open>random.choice(seq)\<close> is \<^verbatim>\<open>seq[int(random() * len(seq))]\<close>; \<open>u\<close> is the value of
  \<^verbatim>\<open>random()\<close>, a float in [0, 1). An empty sequence raises \<^verbatim>\<open>IndexError\<close>.
\<close>

definition random_choice :: "'a list \<Rightarrow> real \<Rightarrow> error + 'a" where
  "random_choice seq u =
     (if seq = [] then Inl IndexError
      else Inr (seq ! nat \<lfloor>u * real (length seq)\<rfloor>))"

text \<open>\<^verbatim>\<open>max(xs)\<close> raises \<^verbatim>\<open>ValueError\<close> on an empty sequence.\<close>

fun py_max :: "real list \<Rightarrow> error + real" where
  "py_max [] = Inl ValueError"
| "py_max (x # xs) = Inr (fold max xs x)"

text \<open>
  An enumeration of a row's keys, each once, standing for the order in which Python iterates
  over the row's dictionary. Python 2 iterates in hash-slot order, which depends on the
  build; the order taken here is that of the literal in \<^verbatim>\<open>createQ\<close>. The properties below
  hold for any order; only the action named in an example depends on it.
\<close>

definition key_order :: "action list" where
  "key_order = [ANone, ALeft, ARight, AForward]"

definition dict_items :: "row \<Rightarrow> (action \<times> real) list" where
  "dict_items r =
     concat (map (\<lambda>k. case r k of None \<Rightarrow> [] | Some v \<Rightarrow> [(k, v)]) key_order)"

definition dict_values :: "row \<Rightarrow> real list" where
  "dict_values r = map snd (dict_items r)"

subsection \<open>The agent's methods\<close>

text \<open>\<^verbatim>\<open>__init__(self, env, learning, epsilon, alpha, decay_fun, decay)\<close>\<close>

definition init :: "bool \<Rightarrow> real \<Rightarrow> real \<Rightarrow> int \<Rightarrow> real \<Rightarrow> agent" where
  "init lrn eps al dfun dcy =
     \<lparr> learning = lrn, Q = Map.empty, epsilon = eps, alpha = al, t = 0,
       decay_fun = (if dfun > 4 then 0 else dfun), decay = dcy,
       state = None, next_waypoint = None \<rparr>"

text \<open>
  \<^verbatim>\<open>reset(self, destination, testing)\<close>. The call \<^verbatim>\<open>self.planner.route_to(destination)\<close>
  changes the planner only. In the branch of schedule 1 both operands of
  \<^verbatim>\<open>1 / (self.t * self.t)\<close> are ints.
\<close>

definition reset :: "agent \<Rightarrow> bool \<Rightarrow> agent" where
  "reset ag testing =
     (let ag1 = ag\<lparr>t := t ag + 1\<rparr> in
      if testing then ag1\<lparr>epsilon := 0, alpha := 0\<rparr>
      else if decay_fun ag1 = 0 then ag1\<lparr>epsilon := epsilon ag1 - decay ag1\<rparr>
      else if decay_fun ag1 = 1 then ag1\<lparr>epsilon := real (1 div (t ag1 * t ag1))\<rparr>
      else if decay_fun ag1 = 2 then ag1\<lparr>epsilon := epsilon ag1 * ((1 - decay ag1) ^ t ag1)\<rparr>
      else if decay_fun ag1 = 3 then ag1\<lparr>epsilon := exp (- decay ag1 * real (t ag1))\<rparr>
      else if decay_fun ag1 = 4 then ag1\<lparr>epsilon := cos (decay ag1 * real (t ag1))\<rparr>
      else ag1)"

text \<open>
  \<^verbatim>\<open>build_state(self)\<close>: \<open>waypoint\<close>, \<open>inputs\<close> and \<open>deadline\<close> are what the planner and
  the environment answer. A field missing from \<open>inputs\<close> raises \<^verbatim>\<open>KeyError\<close>.
\<close>

definition build_state :: "pyval \<Rightarrow> (string \<rightharpoonup> pyval) \<Rightarrow> int \<Rightarrow> error + state" where
  "build_state waypoint inputs deadline =
     (case inputs ''light'' of
        None \<Rightarrow> Inl (KeyError (InputKey ''light''))
      | Some l \<Rightarrow>
     (case inputs ''oncoming'' of
        None \<Rightarrow> Inl (KeyError (InputKey ''oncoming''))
      | Some on \<Rightarrow>
     (case inputs ''left'' of
        None \<Rightarrow> Inl (KeyError (InputKey ''left''))
      | Some lf \<Rightarrow> Inr (l, waypoint, on, lf))))"

text \<open>\<^verbatim>\<open>get_maxQ(self, state)\<close>\<close>

definition get_maxQ :: "agent \<Rightarrow> state \<Rightarrow> error + real" where
  "get_maxQ ag s =
     (case Q ag s of
        None \<Rightarrow> Inl (KeyError (StateKey s))
      | Some r \<Rightarrow> py_max (dict_values r))"

definition zero_row :: row where
  "zero_row = [ANone \<mapsto> 0, ALeft \<mapsto> 0, ARight \<mapsto> 0, AForward \<mapsto> 0]"

text \<open>\<^verbatim>\<open>createQ(self, state)\<close>\<close>

definition createQ :: "agent \<Rightarrow> state \<Rightarrow> agent" where
  "createQ ag s =
     (if learning ag then
        (if Q ag s = None then ag\<lparr>Q := (Q ag)(s \<mapsto> zero_row)\<rparr> else ag)
      else ag)"

text \<open>
  \<^verbatim>\<open>choose_action(self, state)\<close>: \<open>waypoint\<close> is the planner's answer, and \<open>u1\<close>, \<open>x\<close>,
  \<open>u2\<close> are the successive values of the random generator. When not learning only \<open>u1\<close>
  is drawn; when learning \<open>u2\<close> is drawn only if \<open>x < epsilon\<close>. The result pairs the
  returned action (or the exception) with the agent as the call leaves it.
\<close>

definition choose_action ::
  "agent \<Rightarrow> state \<Rightarrow> pyval \<Rightarrow> real \<Rightarrow> real \<Rightarrow> real \<Rightarrow> (error + action) \<times> agent" where
  "choose_action ag s waypoint u1 x u2 =
     (let ag1 = ag\<lparr>state := Some s, next_waypoint := Some waypoint\<rparr> in
      if \<not> learning ag1 then (random_choice valid_actions u1, ag1)
      else
        (case get_maxQ ag1 s of
           Inl e \<Rightarrow> (Inl e, ag1)
         | Inr max_value \<Rightarrow>
        (case Q ag1 s of
           None \<Rightarrow> (Inl (KeyError (StateKey s)), ag1)
         | Some r \<Rightarrow>
        (let actions = map fst (filter (\<lambda>(k, v). v = max_value) (dict_items r)) in
         case random_choice actions u1 of
           Inl e \<Rightarrow> (Inl e, ag1)
         | Inr a \<Rightarrow>
             if x < epsilon ag1 then (random_choice valid_actions u2, ag1)
             else (Inr a, ag1)))))"

text \<open>\<^verbatim>\<open>learn(self, state, action, reward)\<close>\<close>

definition learn :: "agent \<Rightarrow> state \<Rightarrow> action \<Rightarrow> real \<Rightarrow> (error + unit) \<times> agent" where
  "learn ag s a reward =
     (if learning ag then
        (case Q ag s of
           None \<Rightarrow> (Inl (KeyError (StateKey s)), ag)
         | Some r \<Rightarrow>
        (case r a of
           None \<Rightarrow> (Inl (KeyError (ActionKey a)), ag)
         | Some Qvalue \<Rightarrow>
             (Inr (),
              ag\<lparr>Q := (Q ag)(s \<mapsto> r(a \<mapsto> (1 - alpha ag) * Qvalue + alpha ag * reward))\<rparr>)))
      else (Inr (), ag))"

text \<open>
  \<^verbatim>\<open>update(self)\<close>: one time step. \<open>act\<close> is the environment's reward for the action
  chosen (\<^verbatim>\<open>self.env.act(self, action)\<close>). The planner is asked for the waypoint in
  \<^verbatim>\<open>build_state\<close> and again in \<^verbatim>\<open>choose_action\<close>, with no move in between: both get
  \<open>waypoint\<close>.
\<close>

definition update ::
  "agent \<Rightarrow> pyval \<Rightarrow> (string \<rightharpoonup> pyval) \<Rightarrow> int \<Rightarrow> real \<Rightarrow> real \<Rightarrow> real \<Rightarrow> (action \<Rightarrow> real)
     \<Rightarrow> (error + unit) \<times> agent" where
  "update ag waypoint inputs deadline u1 x u2 act =
     (case build_state waypoint inputs deadline of
        Inl e \<Rightarrow> (Inl e, ag)
      | Inr s \<Rightarrow>
          (case choose_action (createQ ag s) s waypoint u1 x u2 of
             (Inl e, ag2) \<Rightarrow> (Inl e, ag2)
           | (Inr a, ag2) \<Rightarrow> learn ag2 s a (act a)))"

subsection \<open>Sequences of calls\<close>

text \<open>
  What the driving loop can call on an agent, with the answers of the collaborators as
  arguments; \<open>exec\<close> gives the agent as the call leaves it, whether it raised or not.
\<close>

datatype call =
    Reset bool
  | CreateQ state
  | ChooseAction state pyval real real real
  | Learn state action real
  | Update pyval "string \<rightharpoonup> pyval" int real real real "action \<Rightarrow> real"

fun exec :: "agent \<Rightarrow> call \<Rightarrow> agent" where
  "exec ag (Reset testing) = reset ag testing"
| "exec ag (CreateQ s) = createQ ag s"
| "exec ag (ChooseAction s wp u1 x u2) = snd (choose_action ag s wp u1 x u2)"
| "exec ag (Learn s a r) = snd (learn ag s a r)"
| "exec ag (Update wp inputs dl u1 x u2 act) = snd (update ag wp inputs dl u1 x u2 act)"

definition run :: "agent \<Rightarrow> call list \<Rightarrow> agent" where
  "run ag cs = foldl exec ag cs"

text \<open>The stored value \<^verbatim>\<open>Q[state][action]\<close>, if there is one.\<close>

definition q_lookup :: "qtable \<Rightarrow> state \<Rightarrow> action \<Rightarrow> real option" where
  "q_lookup qt s a = (case qt s of None \<Rightarrow> None | Some r \<Rightarrow> r a)"

text \<open>Every row of the table has all four actions.\<close>

definition table_ok :: "qtable \<Rightarrow> bool" where
  "table_ok qt = (\<forall>s r. qt s = Some r \<longrightarrow> dom r = UNIV)"

text \<open>\<open>n\<close> successive calls \<^verbatim>\<open>learn(s, a, reward)\<close>.\<close>

fun learn_n :: "nat \<Rightarrow> agent \<Rightarrow> state \<Rightarrow> action \<Rightarrow> real \<Rightarrow> agent" where
  "learn_n 0 ag s a reward = ag"
| "learn_n (Suc n) ag s a reward = snd (learn (learn_n n ag s a reward) s a reward)"

subsection \<open>Calls that train\<close>

text \<open>
  A \<^verbatim>\<open>reset\<close> with \<open>testing = False\<close> is the only call that recomputes \<open>epsilon\<close> from a
  decay schedule.
\<close>

fun training_reset :: "call \<Rightarrow> bool" where
  "training_reset (Reset testing) = (\<not> testing)"
| "training_reset (CreateQ s) = False"
| "training_reset (ChooseAction s wp u1 x u2) = False"
| "training_reset (Learn s a r) = False"
| "training_reset (Update wp inputs dl u1 x u2 act) = False"

subsection \<open>The update on doubles\<close>

text \<open>
  Python's floats are IEEE 754 binary64. \<open>round_double x\<close> is the double nearest to the real
  \<open>x\<close>: a significand of 53 bits, ties to the even significand, and an exponent not below
  -1022 (the subnormals share it). A magnitude of \<open>2 ^ 1024\<close> or more has no finite double
  (the operation gives \<^verbatim>\<open>inf\<close>); the properties that use \<open>round_double\<close> keep the operands
  below \<open>2 ^ 1000\<close>.
\<close>

definition round_half_even :: "real \<Rightarrow> int" where
  "round_half_even y =
     (let n = \<lfloor>y\<rfloor>; d = y - of_int n in
      if d < 1/2 then n else if 1/2 < d then n + 1 else if even n then n else n + 1)"

definition double_exponent :: "real \<Rightarrow> int" where
  "double_exponent x = max \<lfloor>log 2 \<bar>x\<bar>\<rfloor> (- 1022)"

definition round_double :: "real \<Rightarrow> real" where
  "round_double x =
     (if x = 0 then 0
      else of_int (round_half_even (x / 2 powi (double_exponent x - 52))) *
           2 powi (double_exponent x - 52))"

text \<open>
  The relative error of one rounding is at most \<open>unit_roundoff\<close>; among the subnormals
  the absolute error is at most \<open>underflow_unit\<close>.
\<close>

definition unit_roundoff :: real where
  "unit_roundoff = 1 / 2 ^ 53"

definition underflow_unit :: real where
  "underflow_unit = 2 powi (- 1075)"

text \<open>
  The right-hand side of line 139, \<^verbatim>\<open>(1 - self.alpha)*Qvalue + self.alpha * reward\<close>, as
  Python evaluates it: a subtraction, two products and a sum, each rounded by \<open>fl\<close>.
\<close>

definition rounded_update :: "(real \<Rightarrow> real) \<Rightarrow> real \<Rightarrow> real \<Rightarrow> real \<Rightarrow> real" where
  "rounded_update fl al reward Qvalue = fl (fl (fl (1 - al) * Qvalue) + fl (al * reward))"

text \<open>
  \<^verbatim>\<open>learn(self, state, action, reward)\<close> with the arithmetic of line 139 rounded by \<open>fl\<close>:
  \<open>learn_rounded round_double\<close> is the method on doubles, and without rounding it is
  \<open>learn\<close>.
\<close>

definition learn_rounded ::
  "(real \<Rightarrow> real) \<Rightarrow> agent \<Rightarrow> state \<Rightarrow> action \<Rightarrow> real \<Rightarrow> (error + unit) \<times> agent" where
  "learn_rounded fl ag s a reward =
     (if learning ag then
        (case Q ag s of
           None \<Rightarrow> (Inl (KeyError (StateKey s)), ag)
         | Some r \<Rightarrow>
        (case r a of
           None \<Rightarrow> (Inl (KeyError (ActionKey a)), ag)
         | Some Qvalue \<Rightarrow>
             (Inr (),
              ag\<lparr>Q := (Q ag)(s \<mapsto>
                     r(a \<mapsto> rounded_update fl (alpha ag) reward Qvalue))\<rparr>)))
      else (Inr (), ag))"

text \<open>\<open>n\<close> successive calls of the rounded \<^verbatim>\<open>learn(s, a, reward)\<close>.\<close>

fun learn_rounded_n ::
  "(real \<Rightarrow> real) \<Rightarrow> nat \<Rightarrow> agent \<Rightarrow> state \<Rightarrow> action \<Rightarrow> real \<Rightarrow> agent" where
  "learn_rounded_n fl 0 ag s a reward = ag"
| "learn_rounded_n fl (Suc n) ag s a reward =
     snd (learn_rounded fl (learn_rounded_n fl n ag s a reward) s a reward)"

section \<open>Auxiliary facts\<close>

subsection \<open>Rows, maxima and random choice\<close>

lemma action_in_key_order: "k \<in> set key_order"
  by (cases k) (simp_all add: key_order_def)

lemma action_in_valid_actions: "k \<in> set valid_actions"
  by (cases k) (simp_all add: valid_actions_def)

lemma distinct_key_order: "distinct key_order"
  by (simp add: key_order_def)

lemma UNIV_action: "(UNIV :: action set) = {ANone, ALeft, ARight, AForward}"
  using action.exhaust by auto

lemma set_dict_items: "set (dict_items r) = {(k, v). r k = Some v}"
  using action_in_key_order by (auto simp: dict_items_def split: option.splits)

lemma set_dict_values: "set (dict_values r) = ran r"
  by (auto simp: dict_values_def set_dict_items ran_def image_iff)

lemma tied_eq_filter:
  "map fst (filter (\<lambda>(k, v). v = m) (dict_items r)) = filter (\<lambda>k. r k = Some m) key_order"
  by (simp add: dict_items_def key_order_def split: option.splits)

lemma py_max_Max: "xs \<noteq> [] \<Longrightarrow> py_max xs = Inr (Max (set xs))"
proof (cases xs)
  case Nil
  assume "xs \<noteq> []"
  with Nil show ?thesis by simp
next
  case (Cons y ys)
  then show ?thesis using Max.set_eq_fold [of y ys] by simp
qed

lemma finite_ran_row: "finite (ran (r :: row))"
proof -
  have "finite (set (dict_values r))" by simp
  then show ?thesis by (simp add: set_dict_values)
qed

lemma get_maxQ_Max:
  assumes "Q ag s = Some r" and "r \<noteq> Map.empty"
  shows "get_maxQ ag s = Inr (Max (ran r))"
proof -
  from assms(2) obtain k v where "r k = Some v" by fastforce
  then have "v \<in> set (dict_values r)" by (auto simp: set_dict_values ran_def)
  then have "dict_values r \<noteq> []" by auto
  then show ?thesis using assms(1) by (simp add: get_maxQ_def py_max_Max set_dict_values)
qed

lemma Max_ran_attained:
  assumes "(r :: row) \<noteq> Map.empty"
  shows "\<exists>k. r k = Some (Max (ran r))"
proof -
  from assms obtain k v where "r k = Some v" by fastforce
  then have "ran r \<noteq> {}" by (auto simp: ran_def)
  then have "Max (ran r) \<in> ran r" using finite_ran_row by (rule_tac Max_in)
  then show ?thesis by (auto simp: ran_def)
qed

lemma Max_ran_upper: "(r :: row) k = Some q \<Longrightarrow> q \<le> Max (ran r)"
  by (rule Max_ge [OF finite_ran_row]) (auto simp: ran_def)

lemma dom_UNIV_nonempty: "dom (r :: row) = UNIV \<Longrightarrow> r \<noteq> Map.empty"
  by auto

lemma zero_row_all: "zero_row a = Some 0"
  by (cases a) (simp_all add: zero_row_def)

lemma dom_zero_row: "dom zero_row = UNIV"
  by (simp add: zero_row_def UNIV_action insert_commute)

text \<open>
  The index \<^verbatim>\<open>int(random() * n)\<close> is in range, and it is \<open>i\<close> exactly when the draw
  falls in the interval \<open>[i / n, (i + 1) / n)\<close>, of length \<open>1 / n\<close> whatever \<open>i\<close>: a
  uniform draw \<open>u\<close> makes the index uniform.
\<close>

lemma random_index_less:
  assumes "0 \<le> u" "u < 1" "0 < n"
  shows "nat \<lfloor>u * real n\<rfloor> < n"
proof -
  have "u * real n < real n" using assms by simp
  then have "\<lfloor>u * real n\<rfloor> < int n" by (simp add: floor_less_iff)
  then show ?thesis using assms by linarith
qed

lemma random_index_interval:
  assumes "0 \<le> u" "0 < n"
  shows "nat \<lfloor>u * real n\<rfloor> = i \<longleftrightarrow> real i / real n \<le> u \<and> u < real (i + 1) / real n"
proof -
  have nn: "0 \<le> u * real n" using assms by simp
  have "nat \<lfloor>u * real n\<rfloor> = i \<longleftrightarrow> \<lfloor>u * real n\<rfloor> = int i"
    using nn by (metis nat_int zero_le_floor int_nat_eq)
  also have "\<dots> \<longleftrightarrow> real i \<le> u * real n \<and> u * real n < real i + 1"
    by (simp add: floor_eq_iff)
  also have "\<dots> \<longleftrightarrow> real i / real n \<le> u \<and> u < real (i + 1) / real n"
    using assms by (simp add: pos_divide_le_eq pos_less_divide_eq add.commute)
  finally show ?thesis .
qed

lemma random_choice_mem:
  "seq \<noteq> [] \<Longrightarrow> 0 \<le> u \<Longrightarrow> u < 1 \<Longrightarrow>
   random_choice seq u = Inr (seq ! nat \<lfloor>u * real (length seq)\<rfloor>) \<and>
   seq ! nat \<lfloor>u * real (length seq)\<rfloor> \<in> set seq"
  by (simp add: random_choice_def random_index_less)

subsection \<open>What each method leaves unchanged\<close>

lemma reset_keeps:
  "Q (reset ag b) = Q ag" "learning (reset ag b) = learning ag"
  by (simp_all add: reset_def Let_def)

lemma reset_alpha: "alpha (reset ag b) = (if b then 0 else alpha ag)"
  by (simp add: reset_def Let_def)

lemma createQ_keeps:
  "learning (createQ ag s) = learning ag" "alpha (createQ ag s) = alpha ag"
  by (simp_all add: createQ_def)

lemma createQ_Q:
  "Q (createQ ag s) = (if learning ag \<and> Q ag s = None then (Q ag)(s \<mapsto> zero_row) else Q ag)"
  by (simp add: createQ_def)

lemma createQ_noop: "\<not> learning ag \<or> Q ag s \<noteq> None \<Longrightarrow> createQ ag s = ag"
  by (auto simp: createQ_def)

lemma learn_keeps:
  "learning (snd (learn ag s a rw)) = learning ag" "alpha (snd (learn ag s a rw)) = alpha ag"
  by (simp_all add: learn_def split: option.splits)

lemma learn_Q:
  "Q (snd (learn ag s a rw)) =
     (case Q ag s of
        None \<Rightarrow> Q ag
      | Some r \<Rightarrow>
          (case r a of
             None \<Rightarrow> Q ag
           | Some q \<Rightarrow>
               if learning ag then (Q ag)(s \<mapsto> r(a \<mapsto> (1 - alpha ag) * q + alpha ag * rw))
               else Q ag))"
  by (simp add: learn_def split: option.splits)

lemma learn_alpha_zero: "alpha ag = 0 \<Longrightarrow> snd (learn ag s a rw) = ag"
  by (simp add: learn_def map_upd_triv split: option.splits)

lemma learn_lookup:
  "learning ag \<Longrightarrow> q_lookup (Q ag) s a = Some q \<Longrightarrow>
   q_lookup (Q (snd (learn ag s a rw))) s a = Some ((1 - alpha ag) * q + alpha ag * rw)"
  by (auto simp: learn_def q_lookup_def split: option.splits)

lemma choose_action_keeps: 
  "Q (snd (choose_action ag s wp u1 x u2)) = Q ag"
  "learning (snd (choose_action ag s wp u1 x u2)) = learning ag"
  "epsilon (snd (choose_action ag s wp u1 x u2)) = epsilon ag"
  "alpha (snd (choose_action ag s wp u1 x u2)) = alpha ag"
  by (auto simp: choose_action_def Let_def split: sum.splits option.splits)

lemma choose_action_learning:
  assumes "learning ag" "Q ag s = Some r" "r \<noteq> Map.empty"
  shows "fst (choose_action ag s wp u1 x u2) =
           (if x < epsilon ag then random_choice valid_actions u2
            else random_choice (filter (\<lambda>k. r k = Some (Max (ran r))) key_order) u1)"
proof -
  let ?ag1 = "ag\<lparr>state := Some s, next_waypoint := Some wp\<rparr>"
  have m: "get_maxQ ?ag1 s = Inr (Max (ran r))"
    using assms by (intro get_maxQ_Max) simp_all
  from Max_ran_attained [OF assms(3)] obtain k where k: "r k = Some (Max (ran r))" ..
  have ne: "filter (\<lambda>k. r k = Some (Max (ran r))) key_order \<noteq> []"
    using k action_in_key_order by (auto simp: filter_empty_conv)
  then have "\<exists>a. random_choice (filter (\<lambda>k. r k = Some (Max (ran r))) key_order) u1 = Inr a"
    by (simp add: random_choice_def)
  then show ?thesis
    using assms m by (auto simp: choose_action_def Let_def tied_eq_filter split: sum.splits)
qed

lemma update_snd:
  "snd (update ag wp inputs dl u1 x u2 act) =
     (case build_state wp inputs dl of
        Inl e \<Rightarrow> ag
      | Inr s \<Rightarrow>
          (case fst (choose_action (createQ ag s) s wp u1 x u2) of
             Inl e \<Rightarrow> snd (choose_action (createQ ag s) s wp u1 x u2)
           | Inr a \<Rightarrow> snd (learn (snd (choose_action (createQ ag s) s wp u1 x u2)) s a (act a))))"
  by (simp add: update_def split: sum.splits prod.splits)

subsection \<open>The table along a sequence of calls\<close>

lemma table_ok_createQ: "table_ok (Q ag) \<Longrightarrow> table_ok (Q (createQ ag s))"
  by (simp add: table_ok_def createQ_Q dom_zero_row)

lemma table_ok_learn:
  assumes "table_ok (Q ag)"
  shows "table_ok (Q (snd (learn ag s a rw)))"
proof -
  have "dom r' = UNIV" if h: "Q (snd (learn ag s a rw)) s' = Some r'" for s' r'
  proof (cases "learning ag \<and> s' = s \<and> (\<exists>r q. Q ag s = Some r \<and> r a = Some q)")
    case True
    then obtain r q where r: "Q ag s = Some r" "r a = Some q" by blast
    with True h have "r' = r(a \<mapsto> (1 - alpha ag) * q + alpha ag * rw)"
      by (simp add: learn_Q)
    moreover have "dom r = UNIV" using assms r unfolding table_ok_def by blast
    ultimately show ?thesis by simp
  next
    case False
    then have "Q (snd (learn ag s a rw)) s' = Q ag s'"
      by (auto simp: learn_Q split: option.splits)
    with h assms show ?thesis unfolding table_ok_def by metis
  qed
  then show ?thesis unfolding table_ok_def by blast
qed

lemma dom_createQ: "dom (Q (createQ ag s)) \<subseteq> insert s (dom (Q ag))"
  by (auto simp: createQ_Q split: if_splits)

lemma dom_createQ_mono: "dom (Q ag) \<subseteq> dom (Q (createQ ag s))"
  by (auto simp: createQ_Q)

lemma dom_learn: "dom (Q (snd (learn ag s a rw))) = dom (Q ag)"
  unfolding learn_Q by (auto split: option.splits if_splits)

lemma table_ok_update:
  "table_ok (Q ag) \<Longrightarrow> table_ok (Q (snd (update ag wp inputs dl u1 x u2 act)))"
  by (simp add: update_snd choose_action_keeps table_ok_createQ table_ok_learn
      split: sum.splits)

lemma dom_update: "dom (Q ag) \<subseteq> dom (Q (snd (update ag wp inputs dl u1 x u2 act)))"
  by (simp add: update_snd choose_action_keeps dom_learn dom_createQ_mono split: sum.splits)

lemma table_ok_exec: "table_ok (Q ag) \<Longrightarrow> table_ok (Q (exec ag c))"
  by (cases c)
     (simp_all add: reset_keeps choose_action_keeps table_ok_createQ table_ok_learn
        table_ok_update)

lemma dom_exec: "dom (Q ag) \<subseteq> dom (Q (exec ag c))"
  by (cases c)
     (simp_all add: reset_keeps choose_action_keeps dom_createQ_mono dom_learn dom_update)

lemma table_ok_run: "table_ok (Q ag) \<Longrightarrow> table_ok (Q (run ag cs))"
  unfolding run_def by (induction cs arbitrary: ag) (simp_all add: table_ok_exec)

lemma dom_run: "dom (Q ag) \<subseteq> dom (Q (run ag cs))"
  unfolding run_def
proof (induction cs arbitrary: ag)
  case Nil
  show ?case by simp
next
  case (Cons c cs)
  have "dom (Q ag) \<subseteq> dom (Q (exec ag c))" by (rule dom_exec)
  also have "\<dots> \<subseteq> dom (Q (foldl exec (exec ag c) cs))" by (rule Cons.IH)
  finally show ?case by simp
qed

lemma learning_exec: "learning (exec ag c) = learning ag"
  by (cases c)
     (simp_all add: reset_keeps choose_action_keeps createQ_keeps learn_keeps update_snd
        split: sum.splits)

lemma learning_run: "learning (run ag cs) = learning ag"
  unfolding run_def by (induction cs arbitrary: ag) (simp_all add: learning_exec)

lemma exec_alpha_zero: "alpha ag = 0 \<Longrightarrow> alpha (exec ag c) = 0"
  by (cases c)
     (simp_all add: reset_alpha choose_action_keeps learn_keeps createQ_keeps update_snd
        split: sum.splits)

lemma run_alpha_zero: "alpha ag = 0 \<Longrightarrow> alpha (run ag cs) = 0"
  unfolding run_def by (induction cs arbitrary: ag) (simp_all add: exec_alpha_zero)

lemma exec_not_learning: "\<not> learning ag \<Longrightarrow> Q (exec ag c) = Q ag"
  by (cases c)
     (simp_all add: reset_keeps choose_action_keeps createQ_Q createQ_keeps learn_Q update_snd
        split: sum.splits option.splits)

lemma run_not_learning: "\<not> learning ag \<Longrightarrow> Q (run ag cs) = Q ag"
  unfolding run_def
  by (induction cs arbitrary: ag) (simp_all add: exec_not_learning learning_exec)

lemma learn_n_keeps:
  "learning (learn_n n ag s a rw) = learning ag" "alpha (learn_n n ag s a rw) = alpha ag"
  by (induction n) (simp_all add: learn_keeps)

lemma learn_n_lookup:
  assumes "learning ag" and "q_lookup (Q ag) s a = Some q"
  shows "q_lookup (Q (learn_n n ag s a rw)) s a = Some (rw + (1 - alpha ag) ^ n * (q - rw))"
proof (induction n)
  case 0
  show ?case using assms(2) by simp
next
  case (Suc n)
  have "q_lookup (Q (learn_n (Suc n) ag s a rw)) s a =
          Some ((1 - alpha ag) * (rw + (1 - alpha ag) ^ n * (q - rw)) + alpha ag * rw)"
    using learn_lookup [OF _ Suc.IH] assms(1) by (simp add: learn_n_keeps)
  also have "(1 - alpha ag) * (rw + (1 - alpha ag) ^ n * (q - rw)) + alpha ag * rw =
          rw + (1 - alpha ag) ^ Suc n * (q - rw)"
    by (simp add: algebra_simps)
  finally show ?case .
qed

subsection \<open>Exploration rate and frozen rows along a sequence of calls\<close>

lemma reset_testing_epsilon: "epsilon (reset ag True) = 0"
  by (simp add: reset_def Let_def)

lemma createQ_epsilon: "epsilon (createQ ag s) = epsilon ag"
  by (simp add: createQ_def)

lemma learn_epsilon: "epsilon (snd (learn ag s a rw)) = epsilon ag"
  by (simp add: learn_def split: option.splits)

lemma exec_epsilon_zero:
  "epsilon ag = 0 \<Longrightarrow> \<not> training_reset c \<Longrightarrow> epsilon (exec ag c) = 0"
  by (cases c)
     (simp_all add: reset_testing_epsilon createQ_epsilon learn_epsilon choose_action_keeps
        update_snd split: sum.splits)

lemma run_epsilon_zero:
  "epsilon ag = 0 \<Longrightarrow> \<forall>c\<in>set cs. \<not> training_reset c \<Longrightarrow> epsilon (run ag cs) = 0"
  unfolding run_def by (induction cs arbitrary: ag) (simp_all add: exec_epsilon_zero)

lemma choose_action_no_override:
  "epsilon ag \<le> 0 \<Longrightarrow> 0 \<le> x \<Longrightarrow>
   choose_action ag s wp u1 x u2 = choose_action ag s wp u1 x u2'"
  by (simp add: choose_action_def Let_def split: sum.splits option.splits)

lemma choose_action_greedy:
  assumes "learning ag" and "Q ag s = Some r" and "dom r = UNIV"
    and "0 \<le> u1" and "u1 < 1" and "epsilon ag \<le> 0" and "0 \<le> x"
  shows "\<exists>a. fst (choose_action ag s wp u1 x u2) = Inr a \<and> r a = Some (Max (ran r))"
proof -
  let ?tied = "filter (\<lambda>k. r k = Some (Max (ran r))) key_order"
  have ne: "r \<noteq> Map.empty" using assms(3) by (rule dom_UNIV_nonempty)
  from Max_ran_attained [OF ne] obtain k where "r k = Some (Max (ran r))" ..
  then have "?tied \<noteq> []" using action_in_key_order by (auto simp: filter_empty_conv)
  with assms(4,5) have c: "random_choice ?tied u1 = Inr (?tied ! nat \<lfloor>u1 * real (length ?tied)\<rfloor>)"
    and m: "?tied ! nat \<lfloor>u1 * real (length ?tied)\<rfloor> \<in> set ?tied"
    using random_choice_mem [of ?tied u1] by simp_all
  have "fst (choose_action ag s wp u1 x u2) = random_choice ?tied u1"
    using choose_action_learning [OF assms(1,2) ne, of wp u1 x u2] assms(6,7) by simp
  with c m show ?thesis by simp
qed

lemma exec_frozen_rows:
  "alpha ag = 0 \<Longrightarrow> Q ag s = Some r \<Longrightarrow> Q (exec ag c) s = Some r"
  by (cases c)
     (auto simp: reset_keeps createQ_Q createQ_keeps choose_action_keeps learn_alpha_zero
        update_snd split: sum.splits)

lemma run_frozen_rows:
  "alpha ag = 0 \<Longrightarrow> Q ag s = Some r \<Longrightarrow> Q (run ag cs) s = Some r"
  unfolding run_def
  by (induction cs arbitrary: ag) (simp_all add: exec_frozen_rows exec_alpha_zero)

subsection \<open>The update in exact arithmetic\<close>

text \<open>
  Without rounding each call multiplies the distance to the reward by \<open>1 - alpha\<close>.
\<close>

lemma learn_exact_contraction:
  assumes "learning ag" and "Q ag s = Some r" and "r a = Some q"
    and "0 < alpha ag" and "alpha ag < 1"
  shows "\<exists>qn qn'.
           q_lookup (Q (learn_n n ag s a rw)) s a = Some qn \<and>
           q_lookup (Q (learn_n (Suc n) ag s a rw)) s a = Some qn' \<and>
           qn' = (1 - alpha ag) * qn + alpha ag * rw \<and>
           \<bar>qn' - rw\<bar> = (1 - alpha ag) * \<bar>qn - rw\<bar> \<and>
           \<bar>qn' - rw\<bar> \<le> \<bar>qn - rw\<bar> \<and>
           (qn \<noteq> rw \<longrightarrow> \<bar>qn' - rw\<bar> < \<bar>qn - rw\<bar>) \<and>
           \<bar>qn - rw\<bar> = (1 - alpha ag) ^ n * \<bar>q - rw\<bar>"
proof -
  define c where "c = 1 - alpha ag"
  have c: "0 < c" "c < 1" using assms(4,5) by (simp_all add: c_def)
  have l0: "q_lookup (Q ag) s a = Some q" using assms(2,3) by (simp add: q_lookup_def)
  define qn where "qn = rw + c ^ n * (q - rw)"
  define qn' where "qn' = rw + c ^ Suc n * (q - rw)"
  have 1: "q_lookup (Q (learn_n n ag s a rw)) s a = Some qn"
    unfolding qn_def c_def by (rule learn_n_lookup [OF assms(1) l0])
  have 2: "q_lookup (Q (learn_n (Suc n) ag s a rw)) s a = Some qn'"
    unfolding qn'_def c_def by (rule learn_n_lookup [OF assms(1) l0])
  have 3: "qn' = (1 - alpha ag) * qn + alpha ag * rw"
    by (simp add: qn_def qn'_def c_def algebra_simps)
  have d: "qn' - rw = c * (qn - rw)" by (simp add: qn_def qn'_def)
  have 4: "\<bar>qn' - rw\<bar> = c * \<bar>qn - rw\<bar>" using c by (simp add: d abs_mult)
  have 5: "\<bar>qn' - rw\<bar> \<le> \<bar>qn - rw\<bar>"
    unfolding 4 using c by (simp add: mult_left_le_one_le)
  have 6: "qn \<noteq> rw \<longrightarrow> \<bar>qn' - rw\<bar> < \<bar>qn - rw\<bar>"
    unfolding 4 using c by simp
  have 7: "\<bar>qn - rw\<bar> = c ^ n * \<bar>q - rw\<bar>"
    using c by (simp add: qn_def abs_mult)
  from 1 2 3 4 5 6 7 show ?thesis unfolding c_def by blast
qed

subsection \<open>Rounding to a double\<close>

lemma round_half_even_error: "\<bar>of_int (round_half_even y) - y\<bar> \<le> 1/2"
  unfolding round_half_even_def Let_def by (auto; linarith)

lemma floor_log2_binade:
  assumes "2 powi e \<le> \<bar>x\<bar>" and "\<bar>x\<bar> < 2 powi (e + 1)"
  shows "\<lfloor>log 2 \<bar>x\<bar>\<rfloor> = e"
proof -
  have pos: "0 < \<bar>x\<bar>" using assms(1) by (smt (verit) zero_less_power_int)
  have 1: "(2::real) powr real_of_int e = 2 powi e"
    by (simp add: powr_real_of_int')
  have "(2::real) powr real_of_int (e + 1) = 2 powi (e + 1)"
    by (rule powr_real_of_int') simp_all
  then have 2: "(2::real) powr (real_of_int e + 1) = 2 powi (e + 1)"
    by simp
  show ?thesis
    using assms by (simp add: floor_log_eq_powr_iff [OF pos] 1 2)
qed

lemma double_exponent_binade:
  assumes "2 powi e \<le> \<bar>x\<bar>" and "\<bar>x\<bar> < 2 powi (e + 1)" and "- 1022 \<le> e"
  shows "double_exponent x = e"
  using assms by (simp add: double_exponent_def floor_log2_binade)

lemma round_double_binade:
  assumes "2 powi e \<le> \<bar>x\<bar>" and "\<bar>x\<bar> < 2 powi (e + 1)" and "- 1022 \<le> e"
  shows "round_double x = of_int (round_half_even (x / 2 powi (e - 52))) * 2 powi (e - 52)"
proof -
  have "x \<noteq> 0" using assms(1) by (smt (verit) zero_less_power_int)
  then show ?thesis
    by (simp add: round_double_def double_exponent_binade [OF assms])
qed

lemma pow2_floor_log_le:
  assumes "x \<noteq> 0"
  shows "2 powi \<lfloor>log 2 \<bar>x\<bar>\<rfloor> \<le> \<bar>x\<bar>"
proof -
  have pos: "0 < \<bar>x\<bar>" using assms by simp
  have "(2::real) powr real_of_int \<lfloor>log 2 \<bar>x\<bar>\<rfloor> \<le> 2 powr log 2 \<bar>x\<bar>"
    by (intro powr_mono) simp_all
  also have "\<dots> = \<bar>x\<bar>" using pos by simp
  finally show ?thesis by (simp add: powr_real_of_int')
qed

lemma underflow_unit_pos: "0 < underflow_unit"
  unfolding underflow_unit_def by (rule zero_less_power_int) simp

lemma unit_roundoff_pos: "0 < unit_roundoff"
  by (simp add: unit_roundoff_def)

lemma round_double_error:
  "\<bar>round_double x - x\<bar> \<le> unit_roundoff * \<bar>x\<bar> + underflow_unit"
proof (cases "x = 0")
  case True
  then show ?thesis
    by (simp add: round_double_def underflow_unit_pos [THEN less_imp_le])
next
  case False
  define e where "e = double_exponent x"
  define q :: real where "q = 2 powi (e - 52)"
  have q: "0 < q" by (simp add: q_def)
  have rd: "round_double x = of_int (round_half_even (x / q)) * q"
    using False by (simp add: round_double_def e_def q_def)
  have "round_double x - x = (of_int (round_half_even (x / q)) - x / q) * q"
    using q by (simp add: rd algebra_simps)
  then have "\<bar>round_double x - x\<bar> = \<bar>of_int (round_half_even (x / q)) - x / q\<bar> * q"
    using q by (simp add: abs_mult)
  also have "\<dots> \<le> (1/2) * q"
    using q round_half_even_error [of "x / q"] by (intro mult_right_mono) simp_all
  also have "(1/2) * q = 2 powi e / 2 ^ 53"
    by (simp add: q_def power_int_diff)
  finally have b: "\<bar>round_double x - x\<bar> \<le> 2 powi e / 2 ^ 53" .
  show ?thesis
  proof (cases "- 1022 \<le> \<lfloor>log 2 \<bar>x\<bar>\<rfloor>")
    case True
    then have "e = \<lfloor>log 2 \<bar>x\<bar>\<rfloor>" by (simp add: e_def double_exponent_def)
    then have "(2::real) powi e \<le> \<bar>x\<bar>" using pow2_floor_log_le [OF False] by simp
    then have "(2::real) powi e / 2 ^ 53 \<le> unit_roundoff * \<bar>x\<bar>"
      by (simp add: unit_roundoff_def)
    with b have "\<bar>round_double x - x\<bar> \<le> unit_roundoff * \<bar>x\<bar> + 0" by simp
    also have "\<dots> \<le> unit_roundoff * \<bar>x\<bar> + underflow_unit"
      by (intro add_left_mono) (rule underflow_unit_pos [THEN less_imp_le])
    finally show ?thesis .
  next
    case False
    then have "e = - 1022" by (simp add: e_def double_exponent_def)
    then have "(2::real) powi e / 2 ^ 53 = 2 powi (- 1022 - 53)"
      by (simp only: power_int_diff [of 2 "- 1022" 53]) simp
    then have "(2::real) powi e / 2 ^ 53 = underflow_unit"
      by (simp add: underflow_unit_def)
    with b have "\<bar>round_double x - x\<bar> \<le> 0 + underflow_unit" by simp
    also have "\<dots> \<le> unit_roundoff * \<bar>x\<bar> + underflow_unit"
      by (intro add_right_mono) (simp add: unit_roundoff_pos [THEN less_imp_le])
    finally show ?thesis .
  qed
qed

lemma unit_roundoff_powi: "unit_roundoff = 2 powi (- 53)"
  by (simp add: unit_roundoff_def power_int_minus_divide)

lemma underflow_le_roundoff: "underflow_unit \<le> unit_roundoff"
  unfolding unit_roundoff_powi underflow_unit_def by (rule power_int_increasing) simp_all

lemma unit_roundoff_le_half: "unit_roundoff \<le> 1/2"
  by (simp add: unit_roundoff_def)

text \<open>
  Doubles in the binades the update below goes through.
\<close>

lemma round_double_scaled:
  assumes "2 powi e \<le> \<bar>x\<bar>" and "\<bar>x\<bar> < 2 powi (e + 1)" and "- 1022 \<le> e"
    and "x / 2 powi (e - 52) = of_int n"
  shows "round_double x = x"
proof -
  have "round_half_even (of_int n) = n" by (simp add: round_half_even_def)
  then have "round_double x = x / 2 powi (e - 52) * 2 powi (e - 52)"
    using round_double_binade [OF assms(1-3)] assms(4) by simp
  then show ?thesis by simp
qed

lemma round_double_zero: "round_double 0 = 0"
  by (simp add: round_double_def)

lemma round_double_three_quarters: "round_double (3/4) = 3/4"
  by (rule round_double_scaled [where e = "- 1" and n = 6755399441055744])
     (simp_all add: power_int_minus_divide)

lemma round_double_quarter: "round_double (1/4) = 1/4"
  by (rule round_double_scaled [where e = "- 2" and n = 4503599627370496])
     (simp_all add: power_int_minus_divide)

lemma round_double_stall_value:
  "round_double (4503599627370495 / 4503599627370496) = 4503599627370495 / 4503599627370496"
  by (rule round_double_scaled [where e = "- 1" and n = 9007199254740990])
     (simp_all add: power_int_minus_divide)

lemma round_double_tie:
  "round_double (3/4 * (4503599627370495 / 4503599627370496))
     = 3377699720527871 / 4503599627370496"
proof -
  have "round_double (3/4 * (4503599627370495 / 4503599627370496)) =
        of_int (round_half_even (3/4 * (4503599627370495 / 4503599627370496) / 2 powi (- 1 - 52)))
          * 2 powi (- 1 - 52)"
    by (rule round_double_binade) (simp_all add: power_int_minus_divide)
  also have "\<dots> = 3377699720527871 / 4503599627370496"
    by (simp add: round_half_even_def power_int_minus_divide)
  finally show ?thesis .
qed

lemma round_double_half_to_one: "1/2 \<le> x \<Longrightarrow> x < 1 \<Longrightarrow>
  round_double x = of_int (round_half_even (x * 9007199254740992)) / 9007199254740992"
  using round_double_binade [of "- 1" x] by (simp add: power_int_minus_divide)

lemma round_double_quarter_to_half: "1/4 \<le> x \<Longrightarrow> x < 1/2 \<Longrightarrow>
  round_double x = of_int (round_half_even (x * 18014398509481984)) / 18014398509481984"
  using round_double_binade [of "- 2" x] by (simp add: power_int_minus_divide)

lemma round_double_eighth_to_quarter: "1/8 \<le> x \<Longrightarrow> x < 1/4 \<Longrightarrow>
  round_double x = of_int (round_half_even (x * 36028797018963968)) / 36028797018963968"
  using round_double_binade [of "- 3" x] by (simp add: power_int_minus_divide)

subsection \<open>The rounded update\<close>

lemma learn_rounded_exact: "learn_rounded (\<lambda>x. x) ag s a rw = learn ag s a rw"
  by (simp add: learn_rounded_def rounded_update_def learn_def split: option.splits)

lemma learn_rounded_lookup:
  "learning ag \<Longrightarrow> Q ag s = Some r \<Longrightarrow> r a = Some q \<Longrightarrow>
   q_lookup (Q (snd (learn_rounded fl ag s a rw))) s a =
     Some (rounded_update fl (alpha ag) rw q)"
  by (simp add: learn_rounded_def q_lookup_def)

lemma learn_rounded_lookup_gen:
  "learning ag \<Longrightarrow> q_lookup (Q ag) s a = Some q \<Longrightarrow>
   q_lookup (Q (snd (learn_rounded fl ag s a rw))) s a =
     Some (rounded_update fl (alpha ag) rw q)"
  by (auto simp: learn_rounded_def q_lookup_def split: option.splits)

lemma learn_rounded_keeps:
  "learning (snd (learn_rounded fl ag s a rw)) = learning ag"
  "alpha (snd (learn_rounded fl ag s a rw)) = alpha ag"
  by (simp_all add: learn_rounded_def split: option.splits)

lemma learn_rounded_n_keeps:
  "learning (learn_rounded_n fl n ag s a rw) = learning ag"
  "alpha (learn_rounded_n fl n ag s a rw) = alpha ag"
  by (induction n) (simp_all add: learn_rounded_keeps)

lemma learn_rounded_n_lookup:
  assumes "learning ag" and "q_lookup (Q ag) s a = Some q"
  shows "q_lookup (Q (learn_rounded_n fl n ag s a rw)) s a =
           Some ((rounded_update fl (alpha ag) rw ^^ n) q)"
proof (induction n)
  case 0
  show ?case using assms(2) by simp
next
  case (Suc n)
  show ?case
    using learn_rounded_lookup_gen [OF _ Suc.IH, of fl rw] assms(1)
    by (simp add: learn_rounded_n_keeps)
qed

lemma rounded_update_error:
  fixes fl :: "real \<Rightarrow> real" and u eta al q rw :: real
  assumes fl: "\<And>x. \<bar>fl x - x\<bar> \<le> u * \<bar>x\<bar> + eta"
    and u: "0 \<le> u" "u \<le> 1/2" and eta: "0 \<le> eta" "eta \<le> u"
    and al: "0 < al" "al < 1"
  shows "\<bar>rounded_update fl al rw q - ((1 - al) * q + al * rw)\<bar>
           \<le> 8 * u * (\<bar>q\<bar> + \<bar>rw\<bar>) + 4 * eta"
proof -
  define a where "a = fl (1 - al)"
  define p where "p = fl (a * q)"
  define b where "b = fl (al * rw)"
  define v where "v = fl (p + b)"
  have a1: "\<bar>a - (1 - al)\<bar> \<le> u + eta"
  proof -
    have "\<bar>a - (1 - al)\<bar> \<le> u * \<bar>1 - al\<bar> + eta" unfolding a_def by (rule fl)
    also have "u * \<bar>1 - al\<bar> \<le> u * 1" using u al by (intro mult_left_mono) simp_all
    finally show ?thesis by simp
  qed
  have a2: "\<bar>a\<bar> \<le> 2" using a1 al u eta by linarith
  have aq: "\<bar>a * q - (1 - al) * q\<bar> \<le> 2 * u * \<bar>q\<bar>"
  proof -
    have "\<bar>a * q - (1 - al) * q\<bar> = \<bar>a - (1 - al)\<bar> * \<bar>q\<bar>"
      by (simp add: abs_mult [symmetric] algebra_simps)
    also have "\<dots> \<le> (u + eta) * \<bar>q\<bar>" using a1 by (intro mult_right_mono) simp_all
    also have "\<dots> \<le> (2 * u) * \<bar>q\<bar>" using eta by (intro mult_right_mono) simp_all
    finally show ?thesis by simp
  qed
  have aqn: "\<bar>a * q\<bar> \<le> 2 * \<bar>q\<bar>"
    using a2 by (simp add: abs_mult mult_right_mono)
  have p1: "\<bar>p - a * q\<bar> \<le> 2 * u * \<bar>q\<bar> + eta"
  proof -
    have "\<bar>p - a * q\<bar> \<le> u * \<bar>a * q\<bar> + eta" unfolding p_def by (rule fl)
    also have "u * \<bar>a * q\<bar> \<le> u * (2 * \<bar>q\<bar>)" using u aqn by (intro mult_left_mono) simp_all
    finally show ?thesis by simp
  qed
  have uq: "u * \<bar>q\<bar> \<le> (1/2) * \<bar>q\<bar>" using u by (intro mult_right_mono) simp_all
  have p2: "\<bar>p\<bar> \<le> 3 * \<bar>q\<bar> + eta" using p1 aqn uq by linarith
  have rwn: "\<bar>al * rw\<bar> \<le> \<bar>rw\<bar>"
    using al by (simp add: abs_mult mult_left_le_one_le)
  have b1: "\<bar>b - al * rw\<bar> \<le> u * \<bar>rw\<bar> + eta"
  proof -
    have "\<bar>b - al * rw\<bar> \<le> u * \<bar>al * rw\<bar> + eta" unfolding b_def by (rule fl)
    also have "u * \<bar>al * rw\<bar> \<le> u * \<bar>rw\<bar>" using u rwn by (intro mult_left_mono) simp_all
    finally show ?thesis by simp
  qed
  have ur: "u * \<bar>rw\<bar> \<le> (1/2) * \<bar>rw\<bar>" using u by (intro mult_right_mono) simp_all
  have b2: "\<bar>b\<bar> \<le> 2 * \<bar>rw\<bar> + eta" using b1 rwn ur by linarith
  have v1: "\<bar>v - (p + b)\<bar> \<le> 3 * u * \<bar>q\<bar> + 2 * u * \<bar>rw\<bar> + 2 * eta"
  proof -
    have "\<bar>v - (p + b)\<bar> \<le> u * \<bar>p + b\<bar> + eta" unfolding v_def by (rule fl)
    also have "u * \<bar>p + b\<bar> \<le> u * (3 * \<bar>q\<bar> + 2 * \<bar>rw\<bar> + 2 * eta)"
      using u p2 b2 by (intro mult_left_mono) linarith+
    also have "u * (3 * \<bar>q\<bar> + 2 * \<bar>rw\<bar> + 2 * eta) = 3 * u * \<bar>q\<bar> + 2 * u * \<bar>rw\<bar> + (2 * u) * eta"
      by (simp add: algebra_simps)
    also have "(2 * u) * eta \<le> 1 * eta" using u eta by (intro mult_right_mono) simp_all
    finally show ?thesis by simp
  qed
  have "\<bar>v - ((1 - al) * q + al * rw)\<bar> \<le>
        \<bar>v - (p + b)\<bar> + \<bar>p - a * q\<bar> + \<bar>a * q - (1 - al) * q\<bar> + \<bar>b - al * rw\<bar>"
    by linarith
  also have "\<dots> \<le> 7 * u * \<bar>q\<bar> + 3 * u * \<bar>rw\<bar> + 4 * eta"
    using v1 p1 aq b1 by linarith
  also have "\<dots> \<le> 8 * u * (\<bar>q\<bar> + \<bar>rw\<bar>) + 4 * eta"
  proof -
    have "0 \<le> u * \<bar>q\<bar>" "0 \<le> u * \<bar>rw\<bar>" using u by simp_all
    then show ?thesis by (simp add: algebra_simps)
  qed
  finally show ?thesis unfolding v_def p_def b_def a_def rounded_update_def .
qed

lemma double_update_error:
  assumes "0 < al" and "al < 1"
  shows "\<bar>rounded_update round_double al rw q - ((1 - al) * q + al * rw)\<bar>
         \<le> 8 * unit_roundoff * (\<bar>q\<bar> + \<bar>rw\<bar>) + 4 * underflow_unit"
  by (rule rounded_update_error [OF round_double_error unit_roundoff_pos [THEN less_imp_le]
        unit_roundoff_le_half underflow_unit_pos [THEN less_imp_le] underflow_le_roundoff assms])

lemma double_quarter_first_steps:
  "rounded_update round_double (1/4) 1 0 = 1/4"
  "rounded_update round_double (1/4) 1 (1/4) = 7/16"
  by (simp_all add: rounded_update_def round_double_zero round_double_half_to_one
      round_double_quarter_to_half round_double_eighth_to_quarter round_half_even_def Let_def)

lemma double_quarter_steps:
  "(rounded_update round_double (1/4) 1 ^^ 125) 0 = 4503599627370495 / 4503599627370496"
  by (simp add: eval_nat_numeral rounded_update_def round_double_zero round_double_half_to_one round_double_quarter_to_half round_double_eighth_to_quarter
      round_half_even_def Let_def)

section \<open>Properties\<close>

subsection \<open>The value update\<close>

text \<open>
  C1: when the agent is learning and \<open>Q[s][a]\<close> is stored with value \<open>q\<close>,
  \<open>learn s a rw\<close> returns normally, replaces \<open>Q[s][a]\<close> with
  \<open>(1 - alpha) * q + alpha * rw\<close> and changes no other entry of the table (and no other
  attribute of the agent); when the agent is not learning, \<open>learn\<close> returns normally and
  leaves the agent as it was, for any arguments.
\<close>

theorem learn_update_rule:
  "(learning ag \<and> Q ag s = Some r \<and> r a = Some q \<longrightarrow>
      learn ag s a rw =
        (Inr (), ag\<lparr>Q := (Q ag)(s \<mapsto> r(a \<mapsto> (1 - alpha ag) * q + alpha ag * rw))\<rparr>) \<and>
      q_lookup (Q (snd (learn ag s a rw))) s a = Some ((1 - alpha ag) * q + alpha ag * rw) \<and>
      (\<forall>s' a'. (s', a') \<noteq> (s, a) \<longrightarrow>
         q_lookup (Q (snd (learn ag s a rw))) s' a' = q_lookup (Q ag) s' a')) \<and>
   (\<not> learning ag \<longrightarrow> learn ag s a rw = (Inr (), ag))"
  by (auto simp: learn_def q_lookup_def)

theorem learn_update_rule_witness:
  "learn (createQ (init True 1 (1/2) 0 (1/2)) (PStr ''red'', PNone, PNone, PNone))
         (PStr ''red'', PNone, PNone, PNone) AForward 2 =
     (Inr (), (init True 1 (1/2) 0 (1/2))
        \<lparr>Q := [(PStr ''red'', PNone, PNone, PNone) \<mapsto> zero_row(AForward \<mapsto> 1)]\<rparr>)
   \<and> learn (init False 1 (1/2) 0 (1/2)) (PStr ''red'', PNone, PNone, PNone) AForward 2
       = (Inr (), init False 1 (1/2) 0 (1/2))"
  using
    learn_update_rule [of "createQ (init True 1 (1/2) 0 (1/2)) (PStr ''red'', PNone, PNone, PNone)"
      "(PStr ''red'', PNone, PNone, PNone)" zero_row AForward 0 2]
    learn_update_rule [of "init False 1 (1/2) 0 (1/2)"
      "(PStr ''red'', PNone, PNone, PNone)" zero_row AForward 0 2]
  by (simp add: createQ_def init_def zero_row_def)

subsection \<open>Action selection\<close>

text \<open>
  C2: in learning mode, on a state whose row has all four actions, and for draws \<open>u1\<close>,
  \<open>u2\<close> in [0, 1): \<open>get_maxQ\<close> is the maximum \<open>m\<close> of the row; the list \<open>tied\<close> the code
  builds holds exactly the actions whose value is \<open>m\<close>, each once, and is not empty; the
  candidate is the element of \<open>tied\<close> picked by \<open>u1\<close>, and it is the \<open>i\<close>-th one exactly
  when \<open>u1\<close> lies in \<open>[i / n, (i + 1) / n)\<close> (uniform tie-breaking); the same holds of the
  exploration draw \<open>u2\<close> over the four valid actions; \<open>choose_action\<close> returns the
  exploration draw if \<open>x < epsilon\<close> and the candidate otherwise. In particular, with
  \<open>epsilon \<le> 0\<close> and \<open>x\<close> in [0, 1) the action returned is tied for the maximum.
\<close>

theorem choose_action_epsilon_greedy:
  assumes "learning ag" and "Q ag s = Some r" and "dom r = UNIV"
    and "0 \<le> u1" and "u1 < 1" and "0 \<le> u2" and "u2 < 1"
  shows "let m = Max (ran r);
             tied = map fst (filter (\<lambda>(k, v). v = m) (dict_items r));
             candidate = tied ! nat \<lfloor>u1 * real (length tied)\<rfloor>;
             explore = valid_actions ! nat \<lfloor>u2 * real (length valid_actions)\<rfloor>
         in get_maxQ ag s = Inr m \<and> (\<forall>a q. r a = Some q \<longrightarrow> q \<le> m) \<and>
            set tied = {a. r a = Some m} \<and> distinct tied \<and> tied \<noteq> [] \<and>
            (\<forall>i<length tied. candidate = tied ! i \<longleftrightarrow>
               real i / real (length tied) \<le> u1 \<and> u1 < real (i + 1) / real (length tied)) \<and>
            set valid_actions = UNIV \<and> distinct valid_actions \<and>
            (\<forall>i<length valid_actions. explore = valid_actions ! i \<longleftrightarrow>
               real i / real (length valid_actions) \<le> u2 \<and>
               u2 < real (i + 1) / real (length valid_actions)) \<and>
            fst (choose_action ag s wp u1 x u2) =
              Inr (if x < epsilon ag then explore else candidate) \<and>
            (epsilon ag \<le> 0 \<and> 0 \<le> x \<longrightarrow>
               (\<exists>a. fst (choose_action ag s wp u1 x u2) = Inr a \<and> r a = Some m))"
proof -
  define m where "m = Max (ran r)"
  define tied where "tied = map fst (filter (\<lambda>(k, v). v = m) (dict_items r))"
  define candidate where "candidate = tied ! nat \<lfloor>u1 * real (length tied)\<rfloor>"
  define explore where "explore = valid_actions ! nat \<lfloor>u2 * real (length valid_actions)\<rfloor>"
  have ne: "r \<noteq> Map.empty" using assms(3) by (rule dom_UNIV_nonempty)
  have tied: "tied = filter (\<lambda>k. r k = Some m) key_order"
    by (simp add: tied_def tied_eq_filter)
  have c1: "get_maxQ ag s = Inr m"
    using assms(2) ne by (simp add: m_def get_maxQ_Max)
  have c2: "\<forall>a q. r a = Some q \<longrightarrow> q \<le> m"
    by (simp add: m_def Max_ran_upper)
  have c3: "set tied = {a. r a = Some m}"
    using action_in_key_order by (auto simp: tied)
  have c4: "distinct tied"
    by (simp add: tied distinct_key_order)
  have c5: "tied \<noteq> []"
  proof -
    from Max_ran_attained [OF ne] obtain k where "r k = Some m" unfolding m_def ..
    then have "k \<in> set tied" by (simp add: c3)
    then show ?thesis by auto
  qed
  have len: "0 < length tied" using c5 by simp
  have c6: "\<forall>i<length tied. candidate = tied ! i \<longleftrightarrow>
               real i / real (length tied) \<le> u1 \<and> u1 < real (i + 1) / real (length tied)"
  proof (intro allI impI)
    fix i assume i: "i < length tied"
    have j: "nat \<lfloor>u1 * real (length tied)\<rfloor> < length tied"
      using assms(4,5) len by (rule random_index_less)
    have "candidate = tied ! i \<longleftrightarrow> nat \<lfloor>u1 * real (length tied)\<rfloor> = i"
      unfolding candidate_def using c4 i j by (simp add: nth_eq_iff_index_eq)
    then show "candidate = tied ! i \<longleftrightarrow>
        real i / real (length tied) \<le> u1 \<and> u1 < real (i + 1) / real (length tied)"
      using random_index_interval [OF assms(4) len] by simp
  qed
  have c7: "set valid_actions = UNIV"
    using action_in_valid_actions by auto
  have c8: "distinct valid_actions"
    by (simp add: valid_actions_def)
  have lenv: "0 < length valid_actions" by (simp add: valid_actions_def)
  have c9: "\<forall>i<length valid_actions. explore = valid_actions ! i \<longleftrightarrow>
               real i / real (length valid_actions) \<le> u2 \<and>
               u2 < real (i + 1) / real (length valid_actions)"
  proof (intro allI impI)
    fix i assume i: "i < length valid_actions"
    have j: "nat \<lfloor>u2 * real (length valid_actions)\<rfloor> < length valid_actions"
      using assms(6,7) lenv by (rule random_index_less)
    have "explore = valid_actions ! i \<longleftrightarrow> nat \<lfloor>u2 * real (length valid_actions)\<rfloor> = i"
      unfolding explore_def using c8 i j by (simp add: nth_eq_iff_index_eq)
    then show "explore = valid_actions ! i \<longleftrightarrow>
        real i / real (length valid_actions) \<le> u2 \<and>
        u2 < real (i + 1) / real (length valid_actions)"
      using random_index_interval [OF assms(6) lenv] by simp
  qed
  have c10: "fst (choose_action ag s wp u1 x u2) =
              Inr (if x < epsilon ag then explore else candidate)"
  proof -
    have "random_choice tied u1 = Inr candidate"
      using c5 by (simp add: random_choice_def candidate_def)
    moreover have "random_choice valid_actions u2 = Inr explore"
      using lenv by (simp add: random_choice_def explore_def)
    ultimately show ?thesis
      using choose_action_learning [OF assms(1,2) ne, of wp u1 x u2]
      by (simp add: tied m_def)
  qed
  have c11: "epsilon ag \<le> 0 \<and> 0 \<le> x \<longrightarrow>
               (\<exists>a. fst (choose_action ag s wp u1 x u2) = Inr a \<and> r a = Some m)"
  proof
    assume h: "epsilon ag \<le> 0 \<and> 0 \<le> x"
    have "candidate \<in> set tied"
      unfolding candidate_def using random_index_less [OF assms(4,5) len] by simp
    then have "r candidate = Some m" by (simp add: c3)
    moreover have "fst (choose_action ag s wp u1 x u2) = Inr candidate"
      using c10 h by simp
    ultimately show "\<exists>a. fst (choose_action ag s wp u1 x u2) = Inr a \<and> r a = Some m"
      by blast
  qed
  from c1 c2 c3 c4 c5 c6 c7 c8 c9 c10 c11 show ?thesis
    unfolding Let_def m_def [symmetric] tied_def [symmetric]
      candidate_def [symmetric] explore_def [symmetric]
    by blast
qed

text \<open>
  A row with a tie among three actions: the draw \<open>u1 = 1/2\<close> picks the second of them.
\<close>

theorem choose_action_epsilon_greedy_witness:
  "learning ((init True 0 (1/2) 0 (1/2))
      \<lparr>Q := [(PStr ''red'', PStr ''left'', PNone, PNone) \<mapsto> zero_row(ALeft \<mapsto> - 1)]\<rparr>) \<and>
   dom (zero_row(ALeft \<mapsto> - 1)) = UNIV \<and> (0::real) \<le> 1/2 \<and> (1/2::real) < 1 \<and>
   get_maxQ ((init True 0 (1/2) 0 (1/2))
      \<lparr>Q := [(PStr ''red'', PStr ''left'', PNone, PNone) \<mapsto> zero_row(ALeft \<mapsto> - 1)]\<rparr>)
      (PStr ''red'', PStr ''left'', PNone, PNone) = Inr 0 \<and>
   Max (ran (zero_row(ALeft \<mapsto> - 1))) = 0 \<and>
   fst (choose_action ((init True 0 (1/2) 0 (1/2))
      \<lparr>Q := [(PStr ''red'', PStr ''left'', PNone, PNone) \<mapsto> zero_row(ALeft \<mapsto> - 1)]\<rparr>)
      (PStr ''red'', PStr ''left'', PNone, PNone) PNone (1/2) (1/2) (1/2)) = Inr ARight"
proof -
  let ?s = "(PStr ''red'', PStr ''left'', PNone, PNone)"
  let ?r = "zero_row(ALeft \<mapsto> - 1)"
  let ?ag = "(init True 0 (1/2) 0 (1/2))\<lparr>Q := [?s \<mapsto> ?r]\<rparr>"
  have h1: "learning ?ag" by (simp add: init_def)
  have h2: "Q ?ag ?s = Some ?r" by simp
  have h3: "dom ?r = UNIV" by (simp add: dom_zero_row)
  have h4: "(0::real) \<le> 1/2" and h5: "(1/2::real) < 1" by simp_all
  have g: "get_maxQ ?ag ?s = Inr 0"
    by (simp add: get_maxQ_def dict_values_def dict_items_def key_order_def zero_row_def)
  have e: "epsilon ?ag = 0" by (simp add: init_def)
  have tied: "map fst (filter (\<lambda>(k, v). v = 0) (dict_items ?r)) = [ANone, ARight, AForward]"
    by (simp add: dict_items_def key_order_def zero_row_def)
  note w = choose_action_epsilon_greedy [OF h1 h2 h3 h4 h5 h4 h5, of PNone "1/2", unfolded Let_def]
  from w g have m: "Max (ran ?r) = 0" by simp
  from w have "fst (choose_action ?ag ?s PNone (1/2) (1/2) (1/2)) = Inr ARight"
    unfolding m tied e by simp
  with h1 h3 h4 h5 g m show ?thesis by blast
qed

subsection \<open>Testing mode\<close>

text \<open>
  C3: whatever \<open>epsilon\<close> and \<open>alpha\<close> were, \<open>reset\<close> with \<open>testing = True\<close> sets both to 0
  and leaves the table alone. From then on, after any further calls \<open>cs\<close>, \<open>learn\<close> leaves
  the table as it is, for any state, action and reward, and every row stored at the reset
  is still stored unchanged. After any further calls \<open>cs\<close> among which there is no training
  reset, \<open>epsilon\<close> is still 0, \<open>choose_action\<close> does not depend on the exploration draw
  \<open>u2\<close> (the override is never taken), and in learning mode on a state with a full row it
  returns an action tied for the maximum. The same holds right after the reset.
\<close>

theorem reset_testing_freezes:
  "epsilon (reset ag True) = 0 \<and> alpha (reset ag True) = 0 \<and> Q (reset ag True) = Q ag \<and>
   (\<forall>cs s a rw. Q (snd (learn (run (reset ag True) cs) s a rw)) = Q (run (reset ag True) cs)) \<and>
   (\<forall>s wp u1 x u2 u2'. 0 \<le> x \<longrightarrow>
      choose_action (reset ag True) s wp u1 x u2 = choose_action (reset ag True) s wp u1 x u2') \<and>
   (\<forall>s wp r u1 x u2. learning ag \<and> Q ag s = Some r \<and> dom r = UNIV \<and> 0 \<le> u1 \<and> u1 < 1 \<and> 0 \<le> x \<longrightarrow>
      (\<exists>a. fst (choose_action (reset ag True) s wp u1 x u2) = Inr a \<and> r a = Some (Max (ran r)))) \<and>
   (\<forall>cs s r. Q ag s = Some r \<longrightarrow> Q (run (reset ag True) cs) s = Some r) \<and>
   (\<forall>cs. (\<forall>c\<in>set cs. \<not> training_reset c) \<longrightarrow>
      epsilon (run (reset ag True) cs) = 0 \<and>
      (\<forall>s wp u1 x u2 u2'. 0 \<le> x \<longrightarrow>
         choose_action (run (reset ag True) cs) s wp u1 x u2 =
         choose_action (run (reset ag True) cs) s wp u1 x u2') \<and>
      (\<forall>s wp r u1 x u2. learning ag \<and> Q (run (reset ag True) cs) s = Some r \<and> dom r = UNIV \<and>
           0 \<le> u1 \<and> u1 < 1 \<and> 0 \<le> x \<longrightarrow>
         (\<exists>a. fst (choose_action (run (reset ag True) cs) s wp u1 x u2) = Inr a \<and>
              r a = Some (Max (ran r)))))"
proof -
  have e: "epsilon (reset ag True) = 0" by (rule reset_testing_epsilon)
  have al: "alpha (reset ag True) = 0" by (simp add: reset_alpha)
  have q: "Q (reset ag True) = Q ag" by (rule reset_keeps)
  have frozen: "\<forall>cs s a rw.
      Q (snd (learn (run (reset ag True) cs) s a rw)) = Q (run (reset ag True) cs)"
    by (simp add: learn_alpha_zero run_alpha_zero al)
  have noexp: "\<forall>s wp u1 x u2 u2'. 0 \<le> x \<longrightarrow>
      choose_action (reset ag True) s wp u1 x u2 = choose_action (reset ag True) s wp u1 x u2'"
    using choose_action_no_override [of "reset ag True"] e by simp
  have greedy: "\<forall>s wp r u1 x u2.
      learning ag \<and> Q ag s = Some r \<and> dom r = UNIV \<and> 0 \<le> u1 \<and> u1 < 1 \<and> 0 \<le> x \<longrightarrow>
      (\<exists>a. fst (choose_action (reset ag True) s wp u1 x u2) = Inr a \<and> r a = Some (Max (ran r)))"
    using choose_action_greedy [of "reset ag True"] e by (simp add: reset_keeps)
  have rows: "\<forall>cs s r. Q ag s = Some r \<longrightarrow> Q (run (reset ag True) cs) s = Some r"
    using run_frozen_rows [of "reset ag True"] al q by simp
  have later: "\<forall>cs. (\<forall>c\<in>set cs. \<not> training_reset c) \<longrightarrow>
      epsilon (run (reset ag True) cs) = 0 \<and>
      (\<forall>s wp u1 x u2 u2'. 0 \<le> x \<longrightarrow>
         choose_action (run (reset ag True) cs) s wp u1 x u2 =
         choose_action (run (reset ag True) cs) s wp u1 x u2') \<and>
      (\<forall>s wp r u1 x u2. learning ag \<and> Q (run (reset ag True) cs) s = Some r \<and> dom r = UNIV \<and>
           0 \<le> u1 \<and> u1 < 1 \<and> 0 \<le> x \<longrightarrow>
         (\<exists>a. fst (choose_action (run (reset ag True) cs) s wp u1 x u2) = Inr a \<and>
              r a = Some (Max (ran r))))"
  proof (intro allI impI)
    fix cs assume h: "\<forall>c\<in>set cs. \<not> training_reset c"
    let ?ag = "run (reset ag True) cs"
    have e': "epsilon ?ag = 0" using e h by (rule run_epsilon_zero)
    have l: "learning ?ag = learning ag" by (simp add: learning_run reset_keeps)
    have 1: "\<forall>s wp u1 x u2 u2'. 0 \<le> x \<longrightarrow>
         choose_action ?ag s wp u1 x u2 = choose_action ?ag s wp u1 x u2'"
      using choose_action_no_override [of ?ag] e' by simp
    have 2: "\<forall>s wp r u1 x u2. learning ag \<and> Q ?ag s = Some r \<and> dom r = UNIV \<and>
           0 \<le> u1 \<and> u1 < 1 \<and> 0 \<le> x \<longrightarrow>
         (\<exists>a. fst (choose_action ?ag s wp u1 x u2) = Inr a \<and> r a = Some (Max (ran r)))"
      using choose_action_greedy [of ?ag] e' l by simp
    from e' 1 2 show "epsilon ?ag = 0 \<and>
      (\<forall>s wp u1 x u2 u2'. 0 \<le> x \<longrightarrow>
         choose_action ?ag s wp u1 x u2 = choose_action ?ag s wp u1 x u2') \<and>
      (\<forall>s wp r u1 x u2. learning ag \<and> Q ?ag s = Some r \<and> dom r = UNIV \<and>
           0 \<le> u1 \<and> u1 < 1 \<and> 0 \<le> x \<longrightarrow>
         (\<exists>a. fst (choose_action ?ag s wp u1 x u2) = Inr a \<and> r a = Some (Max (ran r))))"
      by blast
  qed
  from e al q frozen noexp greedy rows later show ?thesis by blast
qed

theorem reset_testing_freezes_witness:
  "epsilon (reset ((init True 1 (1/2) 0 (1/2))
      \<lparr>Q := [(PStr ''red'', PNone, PNone, PNone) \<mapsto> zero_row(ALeft \<mapsto> - 1)]\<rparr>) True) = 0 \<and>
   alpha (reset ((init True 1 (1/2) 0 (1/2))
      \<lparr>Q := [(PStr ''red'', PNone, PNone, PNone) \<mapsto> zero_row(ALeft \<mapsto> - 1)]\<rparr>) True) = 0 \<and>
   learning ((init True 1 (1/2) 0 (1/2))
      \<lparr>Q := [(PStr ''red'', PNone, PNone, PNone) \<mapsto> zero_row(ALeft \<mapsto> - 1)]\<rparr>) \<and>
   dom (zero_row(ALeft \<mapsto> - 1)) = UNIV \<and> (0::real) \<le> 1/2 \<and> (1/2::real) < 1 \<and>
   choose_action (reset ((init True 1 (1/2) 0 (1/2))
      \<lparr>Q := [(PStr ''red'', PNone, PNone, PNone) \<mapsto> zero_row(ALeft \<mapsto> - 1)]\<rparr>) True)
      (PStr ''red'', PNone, PNone, PNone) PNone (1/2) (1/2) 0 =
   choose_action (reset ((init True 1 (1/2) 0 (1/2))
      \<lparr>Q := [(PStr ''red'', PNone, PNone, PNone) \<mapsto> zero_row(ALeft \<mapsto> - 1)]\<rparr>) True)
      (PStr ''red'', PNone, PNone, PNone) PNone (1/2) (1/2) (3/4) \<and>
   fst (choose_action (reset ((init True 1 (1/2) 0 (1/2))
      \<lparr>Q := [(PStr ''red'', PNone, PNone, PNone) \<mapsto> zero_row(ALeft \<mapsto> - 1)]\<rparr>) True)
      (PStr ''red'', PNone, PNone, PNone) PNone (1/2) (1/2) 0) = Inr ARight \<and>
   Q (snd (learn (reset ((init True 1 (1/2) 0 (1/2))
      \<lparr>Q := [(PStr ''red'', PNone, PNone, PNone) \<mapsto> zero_row(ALeft \<mapsto> - 1)]\<rparr>) True)
      (PStr ''red'', PNone, PNone, PNone) ALeft 5)) =
     [(PStr ''red'', PNone, PNone, PNone) \<mapsto> zero_row(ALeft \<mapsto> - 1)] \<and>
   \<not> training_reset (ChooseAction (PStr ''red'', PNone, PNone, PNone) PNone (1/2) (1/2) 0) \<and>
   \<not> training_reset (Learn (PStr ''red'', PNone, PNone, PNone) ALeft 5) \<and>
   epsilon (run (reset ((init True 1 (1/2) 0 (1/2))
      \<lparr>Q := [(PStr ''red'', PNone, PNone, PNone) \<mapsto> zero_row(ALeft \<mapsto> - 1)]\<rparr>) True)
      [ChooseAction (PStr ''red'', PNone, PNone, PNone) PNone (1/2) (1/2) 0,
       Learn (PStr ''red'', PNone, PNone, PNone) ALeft 5]) = 0 \<and>
   choose_action (run (reset ((init True 1 (1/2) 0 (1/2))
      \<lparr>Q := [(PStr ''red'', PNone, PNone, PNone) \<mapsto> zero_row(ALeft \<mapsto> - 1)]\<rparr>) True)
      [ChooseAction (PStr ''red'', PNone, PNone, PNone) PNone (1/2) (1/2) 0,
       Learn (PStr ''red'', PNone, PNone, PNone) ALeft 5])
      (PStr ''red'', PNone, PNone, PNone) PNone (1/2) (1/2) 0 =
   choose_action (run (reset ((init True 1 (1/2) 0 (1/2))
      \<lparr>Q := [(PStr ''red'', PNone, PNone, PNone) \<mapsto> zero_row(ALeft \<mapsto> - 1)]\<rparr>) True)
      [ChooseAction (PStr ''red'', PNone, PNone, PNone) PNone (1/2) (1/2) 0,
       Learn (PStr ''red'', PNone, PNone, PNone) ALeft 5])
      (PStr ''red'', PNone, PNone, PNone) PNone (1/2) (1/2) (3/4) \<and>
   Q (run (reset ((init True 1 (1/2) 0 (1/2))
      \<lparr>Q := [(PStr ''red'', PNone, PNone, PNone) \<mapsto> zero_row(ALeft \<mapsto> - 1)]\<rparr>) True)
      [ChooseAction (PStr ''red'', PNone, PNone, PNone) PNone (1/2) (1/2) 0,
       Learn (PStr ''red'', PNone, PNone, PNone) ALeft 5])
      (PStr ''red'', PNone, PNone, PNone) = Some (zero_row(ALeft \<mapsto> - 1))"
proof -
  let ?s = "(PStr ''red'', PNone, PNone, PNone)"
  let ?r = "zero_row(ALeft \<mapsto> - 1)"
  let ?ag = "(init True 1 (1/2) 0 (1/2))\<lparr>Q := [?s \<mapsto> ?r]\<rparr>"
  let ?cs = "[ChooseAction ?s PNone (1/2) (1/2) 0, Learn ?s ALeft 5]"
  note w = reset_testing_freezes [of ?ag]
  have l: "learning ?ag" by (simp add: init_def)
  have d: "dom ?r = UNIV" by (simp add: dom_zero_row)
  have e: "epsilon (reset ?ag True) = 0" by (rule w [THEN conjunct1])
  have a: "alpha (reset ?ag True) = 0" by (rule w [THEN conjunct2, THEN conjunct1])
  have q: "Q (reset ?ag True) = Q ?ag"
    by (rule w [THEN conjunct2, THEN conjunct2, THEN conjunct1])
  have "Q (snd (learn (run (reset ?ag True) []) ?s ALeft 5)) = Q (run (reset ?ag True) [])"
    by (rule w [THEN conjunct2, THEN conjunct2, THEN conjunct2, THEN conjunct1,
          THEN spec, THEN spec, THEN spec, THEN spec])
  then have f: "Q (snd (learn (reset ?ag True) ?s ALeft 5)) = [?s \<mapsto> ?r]"
    unfolding run_def foldl.simps q by simp
  have x0: "(0::real) \<le> 1/2" and x1: "(1/2::real) < 1" by simp_all
  have n: "choose_action (reset ?ag True) ?s PNone (1/2) (1/2) 0 =
      choose_action (reset ?ag True) ?s PNone (1/2) (1/2) (3/4)"
    by (rule w [THEN conjunct2, THEN conjunct2, THEN conjunct2, THEN conjunct2, THEN conjunct1,
          THEN spec, THEN spec, THEN spec, THEN spec, THEN spec, THEN spec, THEN mp, OF x0])
  have c: "fst (choose_action (reset ?ag True) ?s PNone (1/2) (1/2) 0) = Inr ARight"
    by (simp add: choose_action_def get_maxQ_def dict_values_def dict_items_def key_order_def
        zero_row_def random_choice_def reset_def init_def Let_def)
  have t1: "\<not> training_reset (ChooseAction ?s PNone (1/2) (1/2) 0)"
    and t2: "\<not> training_reset (Learn ?s ALeft 5)" by simp_all
  have t: "\<forall>c\<in>set ?cs. \<not> training_reset c" by simp
  have qs: "Q ?ag ?s = Some ?r" by simp
  have rows: "Q (run (reset ?ag True) ?cs) ?s = Some ?r"
    by (rule w [THEN conjunct2, THEN conjunct2, THEN conjunct2, THEN conjunct2, THEN conjunct2,
          THEN conjunct2, THEN conjunct1, THEN spec, THEN spec, THEN spec, THEN mp, OF qs])
  note later = w [THEN conjunct2, THEN conjunct2, THEN conjunct2, THEN conjunct2, THEN conjunct2,
      THEN conjunct2, THEN conjunct2, THEN spec, THEN mp, OF t]
  have e': "epsilon (run (reset ?ag True) ?cs) = 0" by (rule later [THEN conjunct1])
  have n': "choose_action (run (reset ?ag True) ?cs) ?s PNone (1/2) (1/2) 0 =
      choose_action (run (reset ?ag True) ?cs) ?s PNone (1/2) (1/2) (3/4)"
    by (rule later [THEN conjunct2, THEN conjunct1,
          THEN spec, THEN spec, THEN spec, THEN spec, THEN spec, THEN spec, THEN mp, OF x0])
  show ?thesis by (intro conjI e a l d x0 x1 n c f t1 t2 e' n' rows)
qed

subsection \<open>Creating rows\<close>

text \<open>
  C4, as the claim states it, fails when the agent is not learning: \<open>createQ\<close> on a state
  that is not a key of the table inserts nothing.
\<close>

theorem createQ_not_learning_counterexample:
  "Q (init False 1 (1/2) 0 (1/2)) (PStr ''red'', PNone, PNone, PNone) = None \<and>
   Q (createQ (init False 1 (1/2) 0 (1/2)) (PStr ''red'', PNone, PNone, PNone))
     (PStr ''red'', PNone, PNone, PNone) = None"
  by (simp add: createQ_def init_def)

text \<open>
  C4, amended: when the agent is learning and \<open>s\<close> is not a key of the table, \<open>createQ\<close>
  inserts a row for \<open>s\<close> with all four actions at 0 and changes nothing else; when the agent
  is not learning, or \<open>s\<close> is already a key, \<open>createQ\<close> changes nothing. A second
  \<open>createQ\<close> on the same state, after any calls in between, changes nothing: the values
  written meanwhile survive.
\<close>

theorem createQ_ensures_row:
  "(learning ag \<and> Q ag s = None \<longrightarrow>
      createQ ag s = ag\<lparr>Q := (Q ag)(s \<mapsto> zero_row)\<rparr> \<and>
      (\<forall>a. q_lookup (Q (createQ ag s)) s a = Some 0)) \<and>
   (\<not> learning ag \<or> Q ag s \<noteq> None \<longrightarrow> createQ ag s = ag) \<and>
   (\<forall>cs. createQ (run (createQ ag s) cs) s = run (createQ ag s) cs)"
proof -
  have 1: "learning ag \<and> Q ag s = None \<longrightarrow>
      createQ ag s = ag\<lparr>Q := (Q ag)(s \<mapsto> zero_row)\<rparr> \<and>
      (\<forall>a. q_lookup (Q (createQ ag s)) s a = Some 0)"
    by (simp add: createQ_def q_lookup_def zero_row_all)
  have 2: "\<not> learning ag \<or> Q ag s \<noteq> None \<longrightarrow> createQ ag s = ag"
    using createQ_noop by blast
  have 3: "\<forall>cs. createQ (run (createQ ag s) cs) s = run (createQ ag s) cs"
  proof
    fix cs
    show "createQ (run (createQ ag s) cs) s = run (createQ ag s) cs"
    proof (cases "learning ag")
      case True
      then have "s \<in> dom (Q (createQ ag s))" by (auto simp: createQ_Q)
      then have "s \<in> dom (Q (run (createQ ag s) cs))" using dom_run by blast
      then show ?thesis by (intro createQ_noop) auto
    next
      case False
      then have "\<not> learning (run (createQ ag s) cs)"
        by (simp add: learning_run createQ_keeps)
      then show ?thesis by (intro createQ_noop) simp
    qed
  qed
  from 1 2 3 show ?thesis by blast
qed

theorem createQ_ensures_row_witness:
  "learning (init True 1 (1/2) 0 (1/2)) \<and>
   Q (init True 1 (1/2) 0 (1/2)) (PStr ''red'', PNone, PNone, PNone) = None \<and>
   createQ (init True 1 (1/2) 0 (1/2)) (PStr ''red'', PNone, PNone, PNone) =
     (init True 1 (1/2) 0 (1/2))\<lparr>Q := [(PStr ''red'', PNone, PNone, PNone) \<mapsto> zero_row]\<rparr> \<and>
   q_lookup (Q (createQ (init True 1 (1/2) 0 (1/2)) (PStr ''red'', PNone, PNone, PNone)))
     (PStr ''red'', PNone, PNone, PNone) ALeft = Some 0 \<and>
   createQ (run (createQ (init True 1 (1/2) 0 (1/2)) (PStr ''red'', PNone, PNone, PNone))
               [Learn (PStr ''red'', PNone, PNone, PNone) ALeft 4])
     (PStr ''red'', PNone, PNone, PNone) =
   run (createQ (init True 1 (1/2) 0 (1/2)) (PStr ''red'', PNone, PNone, PNone))
       [Learn (PStr ''red'', PNone, PNone, PNone) ALeft 4] \<and>
   q_lookup (Q (run (createQ (init True 1 (1/2) 0 (1/2)) (PStr ''red'', PNone, PNone, PNone))
                   [Learn (PStr ''red'', PNone, PNone, PNone) ALeft 4]))
     (PStr ''red'', PNone, PNone, PNone) ALeft = Some 2"
proof -
  let ?s = "(PStr ''red'', PNone, PNone, PNone)"
  let ?ag = "init True 1 (1/2) 0 (1/2)"
  note w = createQ_ensures_row [of ?ag ?s]
  have h: "learning ?ag \<and> Q ?ag ?s = None" by (simp add: init_def)
  note w1 = w [THEN conjunct1, THEN mp, OF h]
  have a: "createQ ?ag ?s = ?ag\<lparr>Q := [?s \<mapsto> zero_row]\<rparr>"
    using w1 [THEN conjunct1] by (simp add: init_def)
  have b: "q_lookup (Q (createQ ?ag ?s)) ?s ALeft = Some 0"
    by (rule w1 [THEN conjunct2, THEN spec])
  have c: "createQ (run (createQ ?ag ?s) [Learn ?s ALeft 4]) ?s =
           run (createQ ?ag ?s) [Learn ?s ALeft 4]"
    by (rule w [THEN conjunct2, THEN conjunct2, THEN spec])
  have d: "q_lookup (Q (run (createQ ?ag ?s) [Learn ?s ALeft 4])) ?s ALeft = Some 2"
    by (simp add: run_def learn_def createQ_def init_def q_lookup_def zero_row_def)
  from h a b c d show ?thesis by simp
qed

subsection \<open>The invariant of the table\<close>

text \<open>
  C5: if every row of the table has all four actions, then so has every row after any
  sequence of calls, and after each of \<open>createQ\<close>, \<open>learn\<close>, \<open>choose_action\<close>, \<open>reset\<close>;
  no call removes a key; \<open>learn\<close>, \<open>choose_action\<close> and \<open>reset\<close> add none, \<open>createQ\<close> adds
  at most its argument, and the row it adds maps every action to 0.
\<close>

theorem table_invariant_preserved:
  assumes "table_ok (Q ag)"
  shows "table_ok (Q (run ag cs)) \<and> dom (Q ag) \<subseteq> dom (Q (run ag cs)) \<and>
         table_ok (Q (createQ ag s)) \<and> table_ok (Q (snd (learn ag s a rw))) \<and>
         table_ok (Q (snd (choose_action ag s wp u1 x u2))) \<and> table_ok (Q (reset ag b)) \<and>
         dom (Q ag) \<subseteq> dom (Q (createQ ag s)) \<and>
         dom (Q (createQ ag s)) \<subseteq> insert s (dom (Q ag)) \<and>
         dom (Q (snd (learn ag s a rw))) = dom (Q ag) \<and>
         Q (snd (choose_action ag s wp u1 x u2)) = Q ag \<and>
         Q (reset ag b) = Q ag \<and>
         (Q ag s = None \<and> Q (createQ ag s) s \<noteq> None \<longrightarrow>
            (\<forall>a'. q_lookup (Q (createQ ag s)) s a' = Some 0))"
proof -
  have z: "Q ag s = None \<and> Q (createQ ag s) s \<noteq> None \<longrightarrow>
            (\<forall>a'. q_lookup (Q (createQ ag s)) s a' = Some 0)"
    by (auto simp: createQ_Q q_lookup_def zero_row_all)
  from assms z show ?thesis
    by (simp add: table_ok_run dom_run table_ok_createQ table_ok_learn choose_action_keeps
        reset_keeps dom_createQ_mono dom_createQ dom_learn)
qed

theorem table_invariant_preserved_witness:
  "table_ok (Q (createQ (init True 1 (1/2) 0 (1/2)) (PStr ''red'', PNone, PNone, PNone))) \<and>
   table_ok (Q (run (createQ (init True 1 (1/2) 0 (1/2)) (PStr ''red'', PNone, PNone, PNone))
                   [Learn (PStr ''red'', PNone, PNone, PNone) ALeft 4,
                    CreateQ (PStr ''green'', PNone, PNone, PNone)])) \<and>
   dom (Q (createQ (init True 1 (1/2) 0 (1/2)) (PStr ''red'', PNone, PNone, PNone)))
     \<subseteq> dom (Q (run (createQ (init True 1 (1/2) 0 (1/2)) (PStr ''red'', PNone, PNone, PNone))
                   [Learn (PStr ''red'', PNone, PNone, PNone) ALeft 4,
                    CreateQ (PStr ''green'', PNone, PNone, PNone)])) \<and>
   dom (Q (run (createQ (init True 1 (1/2) 0 (1/2)) (PStr ''red'', PNone, PNone, PNone))
                   [Learn (PStr ''red'', PNone, PNone, PNone) ALeft 4,
                    CreateQ (PStr ''green'', PNone, PNone, PNone)]))
     = {(PStr ''red'', PNone, PNone, PNone), (PStr ''green'', PNone, PNone, PNone)}"
proof -
  let ?s = "(PStr ''red'', PNone, PNone, PNone)"
  let ?s' = "(PStr ''green'', PNone, PNone, PNone)"
  let ?ag = "createQ (init True 1 (1/2) 0 (1/2)) ?s"
  let ?cs = "[Learn ?s ALeft 4, CreateQ ?s']"
  have q: "Q ?ag = [?s \<mapsto> zero_row]" by (simp add: createQ_def init_def)
  have h: "table_ok (Q ?ag)"
    unfolding q table_ok_def by (auto simp: dom_zero_row split: if_splits)
  note w = table_invariant_preserved [OF h, of ?cs]
  have a: "table_ok (Q (run ?ag ?cs))" by (rule w [THEN conjunct1])
  have b: "dom (Q ?ag) \<subseteq> dom (Q (run ?ag ?cs))" by (rule w [THEN conjunct2, THEN conjunct1])
  have c: "dom (Q (run ?ag ?cs)) = {?s, ?s'}"
    by (auto simp: run_def learn_def createQ_def init_def zero_row_def split: if_splits)
  from h a b c show ?thesis by simp
qed

subsection \<open>Unknown states\<close>

text \<open>
  C6: on a state that is not a key of the table, \<open>get_maxQ\<close> raises the \<^verbatim>\<open>KeyError\<close> of the
  table lookup (the spec's UnknownStateError), and so does \<open>choose_action\<close> in learning
  mode, which leaves the table as it was. \<open>get_maxQ\<close> assigns nothing.
\<close>

theorem unknown_state_raises:
  assumes "Q ag s = None"
  shows "get_maxQ ag s = Inl (KeyError (StateKey s)) \<and>
         (learning ag \<longrightarrow>
            fst (choose_action ag s wp u1 x u2) = Inl (KeyError (StateKey s)) \<and>
            Q (snd (choose_action ag s wp u1 x u2)) = Q ag)"
  using assms by (simp add: get_maxQ_def choose_action_def Let_def)

theorem unknown_state_raises_witness:
  "Q (init True 1 (1/2) 0 (1/2)) (PStr ''red'', PStr ''left'', PNone, PNone) = None \<and>
   get_maxQ (init True 1 (1/2) 0 (1/2)) (PStr ''red'', PStr ''left'', PNone, PNone)
     = Inl (KeyError (StateKey (PStr ''red'', PStr ''left'', PNone, PNone))) \<and>
   choose_action (init True 1 (1/2) 0 (1/2)) (PStr ''red'', PStr ''left'', PNone, PNone)
       (PStr ''left'') 0 0 0
     = (Inl (KeyError (StateKey (PStr ''red'', PStr ''left'', PNone, PNone))),
        (init True 1 (1/2) 0 (1/2))\<lparr>state := Some (PStr ''red'', PStr ''left'', PNone, PNone),
           next_waypoint := Some (PStr ''left'')\<rparr>)"
proof -
  let ?s = "(PStr ''red'', PStr ''left'', PNone, PNone)"
  have h: "Q (init True 1 (1/2) 0 (1/2)) ?s = None" by (simp add: init_def)
  have l: "learning (init True 1 (1/2) 0 (1/2))" by (simp add: init_def)
  from unknown_state_raises [OF h, of "PStr ''left''" 0 0 0] l
  have "get_maxQ (init True 1 (1/2) 0 (1/2)) ?s = Inl (KeyError (StateKey ?s))"
    and "fst (choose_action (init True 1 (1/2) 0 (1/2)) ?s (PStr ''left'') 0 0 0)
           = Inl (KeyError (StateKey ?s))"
    by simp_all
  moreover have "snd (choose_action (init True 1 (1/2) 0 (1/2)) ?s (PStr ''left'') 0 0 0)
     = (init True 1 (1/2) 0 (1/2))\<lparr>state := Some ?s, next_waypoint := Some (PStr ''left'')\<rparr>"
    by (simp add: choose_action_def get_maxQ_def init_def Let_def)
  ultimately show ?thesis using h by (simp add: prod_eq_iff)
qed

subsection \<open>Convergence of the update\<close>

text \<open>
  C7, as the claim states it, fails on the doubles the program computes with. With
  \<open>alpha = 0.25\<close> and the constant reward 1, the value of a fresh row (0.0) is
  \<open>1 - 2^-52\<close> (0.9999999999999998) after 125 calls of the update, and the next call stores
  that value again: the product \<open>0.75 * (1 - 2^-52)\<close> is a tie and rounds to the even
  neighbour. The value is not the reward, and its distance to the reward has not decreased.
\<close>

theorem learn_double_stalls_counterexample:
  "learning (createQ (init True 1 (1/4) 0 (1/2)) (PStr ''red'', PNone, PNone, PNone)) \<and>
   alpha (createQ (init True 1 (1/4) 0 (1/2)) (PStr ''red'', PNone, PNone, PNone)) = 1/4 \<and>
   q_lookup (Q (createQ (init True 1 (1/4) 0 (1/2)) (PStr ''red'', PNone, PNone, PNone)))
     (PStr ''red'', PNone, PNone, PNone) AForward = Some 0 \<and>
   q_lookup (Q (learn_rounded_n round_double 125
        (createQ (init True 1 (1/4) 0 (1/2)) (PStr ''red'', PNone, PNone, PNone))
        (PStr ''red'', PNone, PNone, PNone) AForward 1))
     (PStr ''red'', PNone, PNone, PNone) AForward = Some (4503599627370495 / 4503599627370496) \<and>
   q_lookup (Q (learn_rounded_n round_double 126
        (createQ (init True 1 (1/4) 0 (1/2)) (PStr ''red'', PNone, PNone, PNone))
        (PStr ''red'', PNone, PNone, PNone) AForward 1))
     (PStr ''red'', PNone, PNone, PNone) AForward = Some (4503599627370495 / 4503599627370496) \<and>
   (4503599627370495 / 4503599627370496 :: real) \<noteq> 1"
proof -
  let ?s = "(PStr ''red'', PNone, PNone, PNone)"
  let ?c = "4503599627370495 / 4503599627370496 :: real"
  let ?ag = "createQ (init True 1 (1/4) 0 (1/2)) ?s"
  have l: "learning ?ag" and al: "alpha ?ag = 1/4" by (simp_all add: createQ_def init_def)
  have z: "q_lookup (Q ?ag) ?s AForward = Some 0"
    by (simp add: createQ_def init_def q_lookup_def zero_row_def)
  have a: "q_lookup (Q (learn_rounded_n round_double 125 ?ag ?s AForward 1)) ?s AForward = Some ?c"
    unfolding learn_rounded_n_lookup [OF l z] al double_quarter_steps ..
  have l': "learning (learn_rounded_n round_double 125 ?ag ?s AForward 1)"
    and al': "alpha (learn_rounded_n round_double 125 ?ag ?s AForward 1) = 1/4"
    by (simp_all add: learn_rounded_n_keeps l al)
  have 1: "round_double (1 - 1/4) = 3/4" using round_double_three_quarters by simp
  have 2: "round_double (1/4 * 1) = 1/4" using round_double_quarter by simp
  have 3: "3377699720527871 / 4503599627370496 + 1/4 = ?c" by simp
  have st: "rounded_update round_double (1/4) 1 ?c = ?c"
    unfolding rounded_update_def 1 2 round_double_tie 3 by (rule round_double_stall_value)
  have "learn_rounded_n round_double 126 ?ag ?s AForward 1 =
        snd (learn_rounded round_double (learn_rounded_n round_double 125 ?ag ?s AForward 1)
               ?s AForward 1)"
  proof -
    have "(126::nat) = Suc 125" by simp
    then show ?thesis by (simp only: learn_rounded_n.simps)
  qed
  then have b: "q_lookup (Q (learn_rounded_n round_double 126 ?ag ?s AForward 1)) ?s AForward
      = Some ?c"
    using learn_rounded_lookup_gen [OF l' a, of round_double 1] by (simp only: al' st)
  have ne: "?c \<noteq> 1" by simp
  show ?thesis by (intro conjI l al z a b ne)
qed

text \<open>
  C7, amended: with the agent learning, \<open>0 < alpha < 1\<close> and a reward \<open>rw\<close> of magnitude at
  most \<open>2 ^ 1000\<close>, let \<open>qn\<close> and \<open>qn'\<close> be the values stored after \<open>n\<close> and \<open>n + 1\<close> calls of
  the update on doubles. Then \<open>qn'\<close> is the rounded update of \<open>qn\<close> and, when \<open>qn\<close> is of
  magnitude at most \<open>2 ^ 1000\<close>, its signed error \<open>qn' - rw\<close> is \<open>(1 - alpha) * (qn - rw)\<close> up
  to the rounding budget \<open>B = 8 * unit_roundoff * (\<bar>qn\<bar> + \<bar>rw\<bar>) + 4 * underflow_unit\<close>, that
  is \<open>2^-50 * (\<bar>qn\<bar> + \<bar>rw\<bar>) + 2^-1073\<close>. So the new distance to the reward is within \<open>B\<close>
  of \<open>(1 - alpha)\<close> times the old one, and it is strictly smaller than the old one at every
  step on which \<open>alpha * \<bar>qn - rw\<bar>\<close> exceeds \<open>B\<close>.
\<close>

theorem learn_contracts_error_up_to_rounding:
  assumes "learning ag" and "Q ag s = Some r" and "r a = Some q"
    and "0 < alpha ag" and "alpha ag < 1" and "\<bar>rw\<bar> \<le> 2 ^ 1000"
  shows "\<exists>qn qn'.
           q_lookup (Q (learn_rounded_n round_double n ag s a rw)) s a = Some qn \<and>
           q_lookup (Q (learn_rounded_n round_double (Suc n) ag s a rw)) s a = Some qn' \<and>
           qn' = rounded_update round_double (alpha ag) rw qn \<and>
           (\<bar>qn\<bar> \<le> 2 ^ 1000 \<longrightarrow>
              \<bar>(qn' - rw) - (1 - alpha ag) * (qn - rw)\<bar>
                \<le> 8 * unit_roundoff * (\<bar>qn\<bar> + \<bar>rw\<bar>) + 4 * underflow_unit \<and>
              \<bar>qn' - rw\<bar>
                \<le> (1 - alpha ag) * \<bar>qn - rw\<bar> +
                    (8 * unit_roundoff * (\<bar>qn\<bar> + \<bar>rw\<bar>) + 4 * underflow_unit) \<and>
              (1 - alpha ag) * \<bar>qn - rw\<bar> -
                    (8 * unit_roundoff * (\<bar>qn\<bar> + \<bar>rw\<bar>) + 4 * underflow_unit)
                \<le> \<bar>qn' - rw\<bar> \<and>
              (8 * unit_roundoff * (\<bar>qn\<bar> + \<bar>rw\<bar>) + 4 * underflow_unit < alpha ag * \<bar>qn - rw\<bar> \<longrightarrow>
                 \<bar>qn' - rw\<bar> < \<bar>qn - rw\<bar>))"
proof -
  define qn where "qn = (rounded_update round_double (alpha ag) rw ^^ n) q"
  define qn' where "qn' = rounded_update round_double (alpha ag) rw qn"
  define B where "B = 8 * unit_roundoff * (\<bar>qn\<bar> + \<bar>rw\<bar>) + 4 * underflow_unit"
  define c where "c = 1 - alpha ag"
  have c: "0 < c" "c < 1" using assms(4,5) by (simp_all add: c_def)
  have l0: "q_lookup (Q ag) s a = Some q" using assms(2,3) by (simp add: q_lookup_def)
  have 1: "q_lookup (Q (learn_rounded_n round_double n ag s a rw)) s a = Some qn"
    unfolding qn_def by (rule learn_rounded_n_lookup [OF assms(1) l0])
  have 2: "q_lookup (Q (learn_rounded_n round_double (Suc n) ag s a rw)) s a = Some qn'"
    using learn_rounded_n_lookup [OF assms(1) l0, of round_double "Suc n" rw]
    by (simp add: qn'_def qn_def)
  have "\<bar>qn' - ((1 - alpha ag) * qn + alpha ag * rw)\<bar> \<le> B"
    unfolding qn'_def B_def by (rule double_update_error [OF assms(4,5)])
  moreover have "qn' - ((1 - alpha ag) * qn + alpha ag * rw) = (qn' - rw) - c * (qn - rw)"
    by (simp add: c_def algebra_simps)
  ultimately have 3: "\<bar>(qn' - rw) - c * (qn - rw)\<bar> \<le> B" by simp
  have cabs: "\<bar>c * (qn - rw)\<bar> = c * \<bar>qn - rw\<bar>" using c by (simp add: abs_mult)
  have 4: "\<bar>qn' - rw\<bar> \<le> c * \<bar>qn - rw\<bar> + B" using 3 cabs by linarith
  have 5: "c * \<bar>qn - rw\<bar> - B \<le> \<bar>qn' - rw\<bar>" using 3 cabs by linarith
  have 6: "B < alpha ag * \<bar>qn - rw\<bar> \<longrightarrow> \<bar>qn' - rw\<bar> < \<bar>qn - rw\<bar>"
  proof
    assume "B < alpha ag * \<bar>qn - rw\<bar>"
    moreover have "c * \<bar>qn - rw\<bar> = \<bar>qn - rw\<bar> - alpha ag * \<bar>qn - rw\<bar>"
      by (simp add: c_def algebra_simps)
    ultimately show "\<bar>qn' - rw\<bar> < \<bar>qn - rw\<bar>" using 4 by linarith
  qed
  have 7: "qn' = rounded_update round_double (alpha ag) rw qn" by (rule qn'_def)
  from 1 2 7 3 4 5 6 show ?thesis unfolding B_def c_def by blast
qed

theorem learn_contracts_error_up_to_rounding_witness:
  "learning (createQ (init True 1 (1/4) 0 (1/2)) (PStr ''red'', PNone, PNone, PNone)) \<and>
   Q (createQ (init True 1 (1/4) 0 (1/2)) (PStr ''red'', PNone, PNone, PNone))
     (PStr ''red'', PNone, PNone, PNone) = Some zero_row \<and>
   zero_row AForward = Some 0 \<and>
   0 < alpha (createQ (init True 1 (1/4) 0 (1/2)) (PStr ''red'', PNone, PNone, PNone)) \<and>
   alpha (createQ (init True 1 (1/4) 0 (1/2)) (PStr ''red'', PNone, PNone, PNone)) < 1 \<and>
   \<bar>1 :: real\<bar> \<le> 2 ^ 1000 \<and> \<bar>1/4 :: real\<bar> \<le> 2 ^ 1000 \<and>
   q_lookup (Q (learn_rounded_n round_double (Suc 0)
       (createQ (init True 1 (1/4) 0 (1/2)) (PStr ''red'', PNone, PNone, PNone))
       (PStr ''red'', PNone, PNone, PNone) AForward 1))
     (PStr ''red'', PNone, PNone, PNone) AForward = Some (1/4) \<and>
   q_lookup (Q (learn_rounded_n round_double (Suc (Suc 0))
       (createQ (init True 1 (1/4) 0 (1/2)) (PStr ''red'', PNone, PNone, PNone))
       (PStr ''red'', PNone, PNone, PNone) AForward 1))
     (PStr ''red'', PNone, PNone, PNone) AForward = Some (7/16) \<and>
   \<bar>7/16 - 1 :: real\<bar> < \<bar>1/4 - 1\<bar>"
proof -
  let ?s = "(PStr ''red'', PNone, PNone, PNone)"
  let ?ag = "createQ (init True 1 (1/4) 0 (1/2)) ?s"
  have h1: "learning ?ag" by (simp add: createQ_def init_def)
  have h2: "Q ?ag ?s = Some zero_row" by (simp add: createQ_def init_def)
  have h3: "zero_row AForward = Some 0" by (simp add: zero_row_def)
  have al: "alpha ?ag = 1/4" by (simp add: createQ_def init_def)
  have h4: "0 < alpha ?ag" and h5: "alpha ?ag < 1" by (simp_all add: al)
  have h6: "\<bar>1 :: real\<bar> \<le> 2 ^ 1000" and h7: "\<bar>1/4 :: real\<bar> \<le> 2 ^ 1000" by simp_all
  have z: "q_lookup (Q ?ag) ?s AForward = Some 0" using h2 h3 by (simp add: q_lookup_def)
  have one: "q_lookup (Q (learn_rounded_n round_double (Suc 0) ?ag ?s AForward 1)) ?s AForward
      = Some (1/4)"
    unfolding learn_rounded_n_lookup [OF h1 z] al by (simp add: double_quarter_first_steps)
  from learn_contracts_error_up_to_rounding [OF h1 h2 h3 h4 h5 h6, of "Suc 0"]
  obtain qn qn' where
    a: "q_lookup (Q (learn_rounded_n round_double (Suc 0) ?ag ?s AForward 1)) ?s AForward = Some qn"
    and b: "q_lookup (Q (learn_rounded_n round_double (Suc (Suc 0)) ?ag ?s AForward 1)) ?s AForward
      = Some qn'"
    and v: "qn' = rounded_update round_double (alpha ?ag) 1 qn"
    and dec: "\<bar>qn\<bar> \<le> 2 ^ 1000 \<longrightarrow>
        (8 * unit_roundoff * (\<bar>qn\<bar> + \<bar>1\<bar>) + 4 * underflow_unit < alpha ?ag * \<bar>qn - 1\<bar> \<longrightarrow>
           \<bar>qn' - 1\<bar> < \<bar>qn - 1\<bar>)"
    by blast
  have qn: "qn = 1/4" using a one by simp
  have qn': "qn' = 7/16" unfolding v al qn by (rule double_quarter_first_steps)
  have two: "q_lookup (Q (learn_rounded_n round_double (Suc (Suc 0)) ?ag ?s AForward 1)) ?s AForward
      = Some (7/16)"
    using b unfolding qn' .
  have "8 * unit_roundoff * (\<bar>1/4\<bar> + \<bar>1\<bar>) + 4 * underflow_unit < (1/4) * \<bar>1/4 - 1 :: real\<bar>"
    using underflow_le_roundoff by (simp add: unit_roundoff_def)
  with dec h7 have d: "\<bar>7/16 - 1 :: real\<bar> < \<bar>1/4 - 1\<bar>" unfolding qn qn' al by blast
  show ?thesis by (intro conjI h1 h2 h3 h4 h5 h6 h7 one two d)
qed

subsection \<open>Decay schedule 1\<close>

text \<open>
  C8: with \<open>decay_fun = 1\<close>, the first \<open>reset\<close> gives \<open>t = 1\<close> and \<open>epsilon = 1\<close>; the second
  gives \<open>t = 2\<close> and \<open>epsilon = 0\<close>, not 0.25: \<^verbatim>\<open>1 / (self.t * self.t)\<close> divides two ints.
\<close>

theorem reset_schedule1_floor_division:
  "t (reset (init True 1 (1/2) 1 (1/2)) False) = 1 \<and>
   epsilon (reset (init True 1 (1/2) 1 (1/2)) False) = 1 \<and>
   t (reset (reset (init True 1 (1/2) 1 (1/2)) False) False) = 2 \<and>
   epsilon (reset (reset (init True 1 (1/2) 1 (1/2)) False) False) = 0"
  by (simp add: reset_def init_def Let_def)

subsection \<open>Building the state\<close>




subsection \<open>An agent that does not learn\<close>

text \<open>
  C10: when \<open>learning\<close> is false, \<open>createQ\<close> changes nothing, \<open>learn\<close> returns normally and
  changes nothing, and \<open>choose_action\<close> returns the valid action picked by its first draw,
  whatever the table holds; after any sequence of calls the table is what it was and the
  agent is still not learning, so the table of an agent constructed with
  \<open>learning = False\<close> stays empty; \<open>update\<close> never raises the \<^verbatim>\<open>KeyError\<close> of a state, and
  returns normally when the observation has its three fields.
\<close>

theorem not_learning_never_touches_table:
  assumes "\<not> learning ag"
  shows "createQ ag s = ag \<and> learn ag s a rw = (Inr (), ag) \<and>
         choose_action ag s wp u1 x u2 =
           (Inr (valid_actions ! nat \<lfloor>u1 * real (length valid_actions)\<rfloor>),
            ag\<lparr>state := Some s, next_waypoint := Some wp\<rparr>) \<and>
         (0 \<le> u1 \<and> u1 < 1 \<longrightarrow>
            nat \<lfloor>u1 * real (length valid_actions)\<rfloor> < length valid_actions) \<and>
         Q (run ag cs) = Q ag \<and> \<not> learning (run ag cs) \<and>
         (\<forall>k. fst (update ag wp inputs dl u1 x u2 act) \<noteq> Inl (KeyError (StateKey k))) \<and>
         (inputs ''light'' \<noteq> None \<and> inputs ''oncoming'' \<noteq> None \<and> inputs ''left'' \<noteq> None \<longrightarrow>
            update ag wp inputs dl u1 x u2 act =
              (Inr (), ag\<lparr>state := Some (the (inputs ''light''), wp, the (inputs ''oncoming''),
                                         the (inputs ''left'')),
                         next_waypoint := Some wp\<rparr>)) \<and>
         Q (run (init False e al df dc) cs) = Map.empty"
proof -
  have 1: "createQ ag s = ag" using assms by (simp add: createQ_def)
  have 2: "learn ag s a rw = (Inr (), ag)" using assms by (simp add: learn_def)
  have 3: "choose_action ag s wp u1 x u2 =
           (Inr (valid_actions ! nat \<lfloor>u1 * real (length valid_actions)\<rfloor>),
            ag\<lparr>state := Some s, next_waypoint := Some wp\<rparr>)"
    using assms by (simp add: choose_action_def random_choice_def valid_actions_def)
  have 4: "0 \<le> u1 \<and> u1 < 1 \<longrightarrow>
            nat \<lfloor>u1 * real (length valid_actions)\<rfloor> < length valid_actions"
    using random_index_less [of u1 "length valid_actions"] by (simp add: valid_actions_def)
  have 5: "Q (run ag cs) = Q ag" using assms by (rule run_not_learning)
  have 6: "\<not> learning (run ag cs)" using assms by (simp add: learning_run)
  have 7: "\<forall>k. fst (update ag wp inputs dl u1 x u2 act) \<noteq> Inl (KeyError (StateKey k))"
    using assms
    by (auto simp: update_def build_state_def choose_action_def random_choice_def
        valid_actions_def createQ_def learn_def split: option.splits)
  have 8: "inputs ''light'' \<noteq> None \<and> inputs ''oncoming'' \<noteq> None \<and> inputs ''left'' \<noteq> None \<longrightarrow>
            update ag wp inputs dl u1 x u2 act =
              (Inr (), ag\<lparr>state := Some (the (inputs ''light''), wp, the (inputs ''oncoming''),
                                         the (inputs ''left'')),
                         next_waypoint := Some wp\<rparr>)"
    using assms
    by (auto simp: update_def build_state_def choose_action_def random_choice_def
        valid_actions_def createQ_def learn_def split: option.splits)
  have 9: "Q (run (init False e al df dc) cs) = Map.empty"
    using run_not_learning [of "init False e al df dc" cs] by (simp add: init_def)
  from 1 2 3 4 5 6 7 8 9 show ?thesis by blast
qed

theorem not_learning_never_touches_table_witness:
  "\<not> learning (init False 1 (1/2) 0 (1/2)) \<and>
   createQ (init False 1 (1/2) 0 (1/2)) (PStr ''red'', PNone, PNone, PNone)
     = init False 1 (1/2) 0 (1/2) \<and>
   learn (init False 1 (1/2) 0 (1/2)) (PStr ''red'', PNone, PNone, PNone) ALeft 4
     = (Inr (), init False 1 (1/2) 0 (1/2)) \<and>
   fst (choose_action (init False 1 (1/2) 0 (1/2)) (PStr ''red'', PNone, PNone, PNone) PNone
          (1/2) 0 0) = Inr ALeft \<and>
   Q (run (init False 1 (1/2) 0 (1/2))
        [CreateQ (PStr ''red'', PNone, PNone, PNone),
         Learn (PStr ''red'', PNone, PNone, PNone) ALeft 4]) = Map.empty \<and>
   [''light'' \<mapsto> PStr ''red'', ''oncoming'' \<mapsto> PNone, ''left'' \<mapsto> PNone] ''light'' \<noteq> None \<and>
   fst (update (init False 1 (1/2) 0 (1/2)) PNone
          [''light'' \<mapsto> PStr ''red'', ''oncoming'' \<mapsto> PNone, ''left'' \<mapsto> PNone] 20
          (1/2) 0 0 (\<lambda>a. 1)) = Inr ()"
proof -
  let ?s = "(PStr ''red'', PNone, PNone, PNone)"
  let ?ag = "init False 1 (1/2) 0 (1/2)"
  let ?cs = "[CreateQ ?s, Learn ?s ALeft 4]"
  let ?i = "[''light'' \<mapsto> PStr ''red'', ''oncoming'' \<mapsto> PNone, ''left'' \<mapsto> PNone]"
  have h: "\<not> learning ?ag" by (simp add: init_def)
  note w = not_learning_never_touches_table [OF h, of ?s ALeft 4 PNone "1/2" 0 0 ?cs ?i 20 "\<lambda>a. 1"]
  have a: "createQ ?ag ?s = ?ag" by (rule w [THEN conjunct1])
  have b: "learn ?ag ?s ALeft 4 = (Inr (), ?ag)" by (rule w [THEN conjunct2, THEN conjunct1])
  have c: "fst (choose_action ?ag ?s PNone (1/2) 0 0) = Inr ALeft"
    using w [THEN conjunct2, THEN conjunct2, THEN conjunct1] by (simp add: valid_actions_def)
  have d: "Q (run ?ag ?cs) = Map.empty"
    using w [THEN conjunct2, THEN conjunct2, THEN conjunct2, THEN conjunct2, THEN conjunct1]
    by (simp add: init_def)
  have i: "?i ''light'' \<noteq> None \<and> ?i ''oncoming'' \<noteq> None \<and> ?i ''left'' \<noteq> None" by simp
  have e: "fst (update ?ag PNone ?i 20 (1/2) 0 0 (\<lambda>a. 1)) = Inr ()"
    using w [THEN conjunct2, THEN conjunct2, THEN conjunct2, THEN conjunct2, THEN conjunct2,
             THEN conjunct2, THEN conjunct2, THEN conjunct1, THEN mp, OF i]
    by simp
  from h a b c d i e show ?thesis by simp
qed

end
